theory Spec2Isabelle
  imports Complex_Main "HOL-Library.Word" "HOL-Library.AList"
begin

section \<open>Errors, markers and chromosomes\<close>

text \<open>
  The JavaScript exceptions the modelled code can raise. \<open>RangeError\<close> is thrown
  explicitly by the chromosome constructor; \<open>TypeError\<close> is what the runtime throws
  when a property of \<open>undefined\<close> is read or something that is not a function is
  called.
\<close>

datatype error = TypeError | RangeError

text \<open>Alleles are stored in a \<open>Uint8Array\<close>: one unsigned byte per position.\<close>

type_synonym byte = "8 word"

subsection \<open>Markers\<close>

text \<open>
  \<open>gn_Marker\<close> is abstract; its two subclasses only differ in the default of
  \<open>possible_values\<close> (a list of uint8 values).
\<close>

datatype marker = SNP "byte list" | MicroSatellite "byte list"

fun possible_values :: "marker \<Rightarrow> byte list" where
  "possible_values (SNP pv) = pv"
| "possible_values (MicroSatellite pv) = pv"

definition default_SNP :: marker where
  "default_SNP = SNP [0, 1]"

subsection \<open>Chromosomes and their behaviour layers\<close>

text \<open>
  A chromosome class is the base class \<open>gn_Chromosome\<close> wrapped in a stack of mixins
  (\<open>Sup => class extends Sup\<close>), outermost first in \<open>layers\<close>. The instance fields are
  the three the constructor sets: \<open>_size\<close>, \<open>_markers\<close>, \<open>_distances\<close>.
\<close>

datatype layer =
  Autosome | UnlinkedAutosome | LinkedAutosome | Mito | YChromosome | XChromosome

record chromosome =
  layers :: "layer list"
  size_field :: nat
  markers_field :: "marker list"
  distances_field :: "real list option"

text \<open>
  The constructor, inherited unchanged by every layer:
  \<open>if (distances != null && (markers.length != distances.length + 1)) throw new RangeError\<close>.
\<close>

definition new_chromosome ::
  "layer list \<Rightarrow> marker list \<Rightarrow> real list option \<Rightarrow> error + chromosome" where
  "new_chromosome ls markers distances =
     (case distances of
        None \<Rightarrow>
          Inr \<lparr>layers = ls, size_field = length markers,
               markers_field = markers, distances_field = distances\<rparr>
      | Some d \<Rightarrow>
          if length markers \<noteq> length d + 1 then Inl RangeError
          else Inr \<lparr>layers = ls, size_field = length markers,
                    markers_field = markers, distances_field = distances\<rparr>)"

definition Chromosome :: "marker list \<Rightarrow> real list option \<Rightarrow> error + chromosome" where
  "Chromosome = new_chromosome []"

definition ChromosomePair :: "marker list \<Rightarrow> real list option \<Rightarrow> error + chromosome" where
  "ChromosomePair = new_chromosome [Autosome]"

text \<open>
  The getters, resolved through the mixin stack. \<open>size\<close> is doubled by the Autosome,
  UnlinkedAutosome, LinkedAutosome and XChromosome layers; \<open>markers\<close> is overridden by the
  Autosome layer only (\<open>base_markers.concat(base_markers)\<close>); \<open>is_autosomal\<close> is
  \<open>true\<close> in the Autosome layer and \<open>false\<close> in the base class.
\<close>

fun layered_size :: "layer list \<Rightarrow> nat \<Rightarrow> nat" where
  "layered_size [] n = n"
| "layered_size (Autosome # ls) n = 2 * layered_size ls n"
| "layered_size (UnlinkedAutosome # ls) n = 2 * layered_size ls n"
| "layered_size (LinkedAutosome # ls) n = 2 * layered_size ls n"
| "layered_size (XChromosome # ls) n = 2 * layered_size ls n"
| "layered_size (Mito # ls) n = layered_size ls n"
| "layered_size (YChromosome # ls) n = layered_size ls n"

fun layered_markers :: "layer list \<Rightarrow> marker list \<Rightarrow> marker list" where
  "layered_markers [] ms = ms"
| "layered_markers (Autosome # ls) ms =
     (let base_markers = layered_markers ls ms in base_markers @ base_markers)"
| "layered_markers (l # ls) ms = layered_markers ls ms"

fun layered_is_autosomal :: "layer list \<Rightarrow> bool" where
  "layered_is_autosomal [] = False"
| "layered_is_autosomal (Autosome # ls) = True"
| "layered_is_autosomal (l # ls) = layered_is_autosomal ls"

definition chr_size :: "chromosome \<Rightarrow> nat" where
  "chr_size c = layered_size (layers c) (size_field c)"

definition chr_markers :: "chromosome \<Rightarrow> marker list" where
  "chr_markers c = layered_markers (layers c) (markers_field c)"


section \<open>Genome layout\<close>

text \<open>
  \<open>metadata\<close> is a JavaScript object from chromosome names to chromosomes. It is modelled
  as the list of its entries in the order \<open>for (let name in metadata)\<close> visits them; being
  an object, it holds every name once (\<open>distinct (map fst metadata)\<close>), and \<open>metadata[name]\<close>
  is \<open>map_of\<close>. \<open>_marker_start\<close> is a \<open>Map\<close>, filled with \<open>set\<close> and read with \<open>get\<close>.
\<close>

record genome =
  metadata :: "(string \<times> chromosome) list"
  marker_order :: "string list"
  marker_start :: "(string \<times> nat) list"
  genome_size :: nat

text \<open>
  \<open>_compute_marker_positions\<close>: the loop over the names, carrying \<open>_marker_order\<close>,
  \<open>_marker_start\<close> and the running \<open>start\<close>. Reading \<open>.size\<close> of a missing entry would be
  a \<open>TypeError\<close>.
\<close>

fun compute_marker_positions ::
  "(string \<times> chromosome) list \<Rightarrow> string list \<Rightarrow> string list \<times> (string \<times> nat) list \<times> nat
     \<Rightarrow> error + string list \<times> (string \<times> nat) list \<times> nat" where
  "compute_marker_positions md [] acc = Inr acc"
| "compute_marker_positions md (name # names) (order, starts, start) =
     (case map_of md name of
        None \<Rightarrow> Inl TypeError
      | Some c \<Rightarrow>
          compute_marker_positions md names
            (order @ [name], AList.update name start starts, start + chr_size c))"

definition get_marker_start :: "genome \<Rightarrow> string \<Rightarrow> nat option" where
  "get_marker_start g name = map_of (marker_start g) name"

text \<open>
  The constructor. \<open>this._marker_order[this._marker_order.length - 1]\<close> is \<open>undefined\<close>
  for empty metadata, and \<open>this._metadata[undefined].size\<close> then throws. The start of the
  last name is always in the map (the loop has just stored it), so the innermost
  \<open>None\<close> branch cannot be reached.
\<close>

definition Genome :: "(string \<times> chromosome) list \<Rightarrow> error + genome" where
  "Genome md =
     (case compute_marker_positions md (map fst md) ([], [], 0) of
        Inl e \<Rightarrow> Inl e
      | Inr (order, starts, start) \<Rightarrow>
          (case (if order = [] then None else map_of md (last order)) of
             None \<Rightarrow> Inl TypeError
           | Some last_marker \<Rightarrow>
               (case map_of starts (last order) of
                  None \<Rightarrow> Inl TypeError
                | Some s \<Rightarrow>
                    Inr \<lparr>metadata = md, marker_order = order, marker_start = starts,
                         genome_size = s + chr_size last_marker\<rparr>)))"

text \<open>The chromosomes' sizes, in metadata order.\<close>

abbreviation sizes :: "(string \<times> chromosome) list \<Rightarrow> nat list" where
  "sizes md \<equiv> map (\<lambda>p. chr_size (snd p)) md"

text \<open>
  An example genome: a plain chromosome of two SNPs followed by a chromosome pair of one SNP
  (what \<open>generate_unlinked_genome(1, () => new SNP())\<close> puts under \<open>unlinked\<close>).
\<close>

definition md0 :: "(string \<times> chromosome) list" where
  "md0 = [(''x'', \<lparr>layers = [], size_field = 2, markers_field = [default_SNP, default_SNP],
                    distances_field = None\<rparr>),
          (''unlinked'', \<lparr>layers = [Autosome], size_field = 1, markers_field = [default_SNP],
                    distances_field = None\<rparr>)]"

section \<open>Genome buffers and haploid transmission\<close>

text \<open>
  \<open>individual.genome\<close> is a \<open>Uint8Array\<close>: its length is fixed, reading outside it gives
  \<open>undefined\<close>, writing outside it does nothing, and writing \<open>undefined\<close> stores 0.
\<close>

definition typed_get :: "byte list \<Rightarrow> nat \<Rightarrow> byte option" where
  "typed_get buf k = (if k < length buf then Some (buf ! k) else None)"

definition to_uint8 :: "byte option \<Rightarrow> byte" where
  "to_uint8 v = (case v of None \<Rightarrow> 0 | Some b \<Rightarrow> b)"

definition typed_set :: "byte list \<Rightarrow> nat \<Rightarrow> byte option \<Rightarrow> byte list" where
  "typed_set buf k v = (if k < length buf then buf[k := to_uint8 v] else buf)"

text \<open>
  \<open>reproduce\<close> mutates \<open>individual.genome\<close> in place while reading \<open>parent.genome\<close>, so
  the buffers live in a store indexed by buffer reference. In the functions below
  \<open>individual\<close> and \<open>parent\<close> stand for the references held in the \<open>genome\<close> fields of the
  two arguments, and \<open>store r\<close> is the buffer behind reference \<open>r\<close>, \<open>None\<close> when the field
  is \<open>undefined\<close> (an individual made by the constructor has no genome yet). The same
  object passed twice, and two different objects sharing one \<open>Uint8Array\<close>, are both the
  same reference twice.
\<close>

type_synonym genomes = "nat \<Rightarrow> byte list option"

text \<open>A \<open>for\<close> loop whose body may throw: the first error ends the loop.\<close>

fun for_each :: "'a list \<Rightarrow> ('a \<Rightarrow> 's \<Rightarrow> error + 's) \<Rightarrow> 's \<Rightarrow> error + 's" where
  "for_each [] body s = Inr s"
| "for_each (x # xs) body s =
     (case body x s of Inl e \<Rightarrow> Inl e | Inr s' \<Rightarrow> for_each xs body s')"

text \<open>
  The body of the base class's loop,
  \<open>individual.genome[ofs_position + i] = parent.genome[parent_position + i]\<close>.
  \<open>parent\<close> is \<open>None\<close> when the caller passed \<open>undefined\<close> (an index past the end of
  \<open>parents\<close>).
\<close>

definition copy_allele ::
  "nat \<Rightarrow> nat option \<Rightarrow> nat \<Rightarrow> nat \<Rightarrow> genomes \<Rightarrow> error + genomes" where
  "copy_allele individual parent dst src store =
     (case parent of
        None \<Rightarrow> Inl TypeError
      | Some p \<Rightarrow>
          (case store p of
             None \<Rightarrow> Inl TypeError
           | Some parent_genome \<Rightarrow>
               (case store individual of
                  None \<Rightarrow> Inl TypeError
                | Some genome \<Rightarrow>
                    Inr (store(individual \<mapsto>
                           typed_set genome dst (typed_get parent_genome src))))))"

text \<open>\<open>gn_Chromosome.reproduce\<close>: \<open>for (let i=0; i<this._size; i++)\<close>.\<close>

definition Chromosome_reproduce ::
  "chromosome \<Rightarrow> genomes \<Rightarrow> nat \<Rightarrow> nat option \<Rightarrow> nat \<Rightarrow> nat \<Rightarrow> error + genomes" where
  "Chromosome_reproduce c store individual parent ofs_position parent_position =
     for_each [0..<size_field c]
       (\<lambda>i. copy_allele individual parent (ofs_position + i) (parent_position + i)) store"

text \<open>
  The Autosome layer's \<open>reproduce\<close>, for a class whose \<open>super.reproduce\<close> is the base
  class's (as in \<open>ChromosomePair\<close>). \<open>random\<close> is the value \<open>Math.random()\<close> returns.
  \<open>super.reproduce\<close> copies \<open>this._size\<close> bytes; \<open>this.size / 2\<close> is exact because the
  Autosome layer doubles \<open>size\<close>.
\<close>

definition nth_or_undefined :: "'a list \<Rightarrow> nat \<Rightarrow> 'a option" where
  "nth_or_undefined xs k = (if k < length xs then Some (xs ! k) else None)"

definition Autosome_reproduce ::
  "chromosome \<Rightarrow> real \<Rightarrow> genomes \<Rightarrow> nat \<Rightarrow> nat list \<Rightarrow> nat \<Rightarrow> error + genomes" where
  "Autosome_reproduce c random store individual parents position =
     (let (p1, p2) = (if random < 0.5 then (1, 0) else (0, 1)) in
      case Chromosome_reproduce c store individual (nth_or_undefined parents p1)
             position position of
        Inl e \<Rightarrow> Inl e
      | Inr store' \<Rightarrow>
          Chromosome_reproduce c store' individual (nth_or_undefined parents p2)
            (position + chr_size c div 2) position)"

text \<open>
  The contents of the individual's buffer after \<open>n\<close> iterations of the copy loop, when
  every read finds the parent's bytes as they were before the loop.
\<close>

definition copied :: "byte list \<Rightarrow> nat \<Rightarrow> byte list \<Rightarrow> nat \<Rightarrow> nat \<Rightarrow> byte list" where
  "copied genome ofs parent_genome pp n =
     map (\<lambda>k. if ofs \<le> k \<and> k < ofs + n then to_uint8 (typed_get parent_genome (pp + (k - ofs)))
              else genome ! k) [0..<length genome]"

text \<open>Example chromosomes and stores.\<close>

definition pair_of_one :: chromosome where
  "pair_of_one = \<lparr>layers = [Autosome], size_field = 1, markers_field = [default_SNP],
                  distances_field = None\<rparr>"

definition plain_of_two :: chromosome where
  "plain_of_two = \<lparr>layers = [], size_field = 2, markers_field = [default_SNP, default_SNP],
                   distances_field = None\<rparr>"

definition one_genome :: genomes where
  "one_genome = (\<lambda>x. if x = 0 then Some [1, 2, 3] else None)"

definition family :: genomes where
  "family = (\<lambda>x. if x = 0 then Some [0, 0] else if x = 1 then Some [1, 0]
                  else if x = 2 then Some [2, 0] else None)"

section \<open>Species, individuals and the genome builder\<close>

text \<open>\<open>sp_Species\<close> and \<open>i_Individual\<close>; \<open>genome\<close> is absent until a builder assigns it.\<close>

record species =
  species_name :: string
  species_genome :: genome

record individual =
  ind_id :: nat
  ind_species :: species
  ind_alive :: bool
  ind_cycle_born :: int
  ind_genome :: "byte list option"

text \<open>
  The allele chooser \<open>func(possible_values)\<close> may keep state between calls (the random
  source, the test counter), so it takes and returns that state. Its result is a number, or
  \<open>None\<close> for \<open>undefined\<close>; the \<open>Uint8Array\<close> stores it modulo 256.
\<close>

type_synonym 's chooser = "'s \<Rightarrow> byte list \<Rightarrow> int option \<times> 's"

text \<open>
  \<open>create_simple_genome\<close>: the inner loop body
  \<open>genome_data[position + i] = func(features[i].possible_values)\<close>, the inner loop over
  \<open>features = marker.markers\<close>, the outer loop body (with \<open>position += marker.size\<close>) and
  the function itself, which starts from a zero-filled buffer of \<open>genome.size\<close> bytes.
\<close>

definition fill_locus ::
  "'s chooser \<Rightarrow> marker list \<Rightarrow> nat \<Rightarrow> nat \<Rightarrow> byte list \<times> 's \<Rightarrow> byte list \<times> 's" where
  "fill_locus func features position i acc =
     (case acc of (genome_data, s) \<Rightarrow>
        (case func s (possible_values (features ! i)) of (v, s') \<Rightarrow>
           (typed_set genome_data (position + i) (map_option word_of_int v), s')))"

definition fill_chromosome ::
  "'s chooser \<Rightarrow> marker list \<Rightarrow> nat \<Rightarrow> byte list \<times> 's \<Rightarrow> byte list \<times> 's" where
  "fill_chromosome func features position acc =
     fold (fill_locus func features position) [0..<length features] acc"

definition fill_marker ::
  "'s chooser \<Rightarrow> (string \<times> chromosome) list \<Rightarrow> string \<Rightarrow> nat \<times> byte list \<times> 's
     \<Rightarrow> error + nat \<times> byte list \<times> 's" where
  "fill_marker func md marker_name acc =
     (case acc of (position, genome_data, s) \<Rightarrow>
        (case map_of md marker_name of
           None \<Rightarrow> Inl TypeError
         | Some marker \<Rightarrow>
             (case fill_chromosome func (chr_markers marker) position (genome_data, s) of
                (genome_data', s') \<Rightarrow> Inr (position + chr_size marker, genome_data', s'))))"

definition create_simple_genome ::
  "'s chooser \<Rightarrow> individual \<Rightarrow> 's \<Rightarrow> error + individual \<times> 's" where
  "create_simple_genome func ind s =
     (let genome = species_genome (ind_species ind) in
      case for_each (marker_order genome) (fill_marker func (metadata genome))
             (0, replicate (genome_size genome) 0, s) of
        Inl e \<Rightarrow> Inl e
      | Inr (position, genome_data, s') \<Rightarrow> Inr (ind\<lparr>ind_genome := Some genome_data\<rparr>, s'))"

text \<open>
  \<open>utils_random_choice\<close>, with the value of \<open>Math.random()\<close> as an argument, and the three
  choosers. The random chooser draws \<open>draws k\<close> at its \<open>k\<close>-th call.
\<close>

definition utils_random_choice :: "real \<Rightarrow> byte list \<Rightarrow> byte option" where
  "utils_random_choice random choices =
     (let pos = \<lfloor>random * real (length choices)\<rfloor> in
      if 0 \<le> pos \<and> pos < int (length choices) then Some (choices ! nat pos) else None)"

definition random_chooser :: "(nat \<Rightarrow> real) \<Rightarrow> nat chooser" where
  "random_chooser draws k possible = (map_option uint (utils_random_choice (draws k) possible), Suc k)"

definition zero_chooser :: "unit chooser" where
  "zero_chooser u possible = (Some 0, u)"

definition test_chooser :: "int chooser" where
  "test_chooser test_val possible = (Some test_val, test_val + 1)"

definition create_randomized_genome ::
  "(nat \<Rightarrow> real) \<Rightarrow> individual \<Rightarrow> nat \<Rightarrow> error + individual \<times> nat" where
  "create_randomized_genome draws = create_simple_genome (random_chooser draws)"

definition create_zero_genome :: "individual \<Rightarrow> error + individual \<times> unit" where
  "create_zero_genome ind = create_simple_genome zero_chooser ind ()"

definition create_test_genome :: "individual \<Rightarrow> int \<Rightarrow> error + individual \<times> int" where
  "create_test_genome = create_simple_genome test_chooser"

text \<open>A chooser that always returns one of the values it is offered.\<close>

definition picks_member :: "'s chooser \<Rightarrow> bool" where
  "picks_member func =
     (\<forall>s pv. pv \<noteq> [] \<longrightarrow> (\<exists>b. fst (func s pv) = Some (uint b) \<and> b \<in> set pv))"

text \<open>
  Example data: one marker with \<open>possible_values = [1, 2]\<close> under the \<open>XChromosome\<close> layer,
  the genome the constructor builds from it, and an individual without a genome.
\<close>

definition x_chromosome :: chromosome where
  "x_chromosome = \<lparr>layers = [XChromosome], size_field = 1, markers_field = [SNP [1, 2]],
                   distances_field = None\<rparr>"

definition x_genome :: genome where
  "x_genome = \<lparr>metadata = [(''X'', x_chromosome)], marker_order = [''X''],
               marker_start = [(''X'', 0)], genome_size = 2\<rparr>"

definition zero_draws :: "nat \<Rightarrow> real" where
  "zero_draws k = 0"

definition founder :: "genome \<Rightarrow> individual" where
  "founder g = \<lparr>ind_id = 0, ind_species = \<lparr>species_name = ''s'', species_genome = g\<rparr>,
                ind_alive = True, ind_cycle_born = 0, ind_genome = None\<rparr>"

text \<open>The genome the constructor builds from \<open>md0\<close>.\<close>

definition genome0 :: genome where
  "genome0 = \<lparr>metadata = md0, marker_order = [''x'', ''unlinked''],
              marker_start = [(''x'', 0), (''unlinked'', 2)], genome_size = 4\<rparr>"

section \<open>Operators and the simulation driver\<close>

text \<open>
  \<open>global_parameters\<close> is an object from names to arbitrary values. The values the driver
  itself tests are booleans; \<open>JObject\<close> stands for any object (a statistics result), which
  is truthy. A missing name reads as \<open>undefined\<close>.
\<close>

datatype 'r jsval = JUndefined | JBool bool | JNum int | JObject 'r

fun truthy :: "'r jsval \<Rightarrow> bool" where
  "truthy JUndefined = False"
| "truthy (JBool b) = b"
| "truthy (JNum n) = (n \<noteq> 0)"
| "truthy (JObject r) = True"

type_synonym 'r parameters = "string \<Rightarrow> 'r jsval option"

definition get_parameter :: "'r parameters \<Rightarrow> string \<Rightarrow> 'r jsval" where
  "get_parameter gp name = (case gp name of None \<Rightarrow> JUndefined | Some v \<Rightarrow> v)"

text \<open>
  Operators. \<open>BaseOperator.change\<close> throws; \<open>CycleStopOperator\<close> holds its target cycle;
  a \<open>StatisticsOperator\<close> holds its name, and its subclass's \<open>compute\<close> is given by the
  \<open>compute\<close> argument of the functions below; any other operator (reproduction, culling)
  is an \<open>ExternalOperator\<close> whose \<open>change\<close> is the \<open>ext\<close> argument. Cycle numbers are
  JavaScript numbers holding integers.
\<close>

datatype 'x operator =
  BaseOperator | CycleStopOperator int | StatisticsOperator string 'x | ExternalOperator 'x

text \<open>
  \<open>state.operators\<close> is a reference to an array, and \<open>cycle\<close> walks that array while the
  operators run: an operator may push onto the very array being walked, or point
  \<open>state.operators\<close> to another array. So operator arrays live in a store, a list of
  arrays in which a reference is a position; \<open>operators\<close> holds a reference. A new array
  is stored at the end.
\<close>

type_synonym 'x arrays = "'x operator list list"

record ('i, 'r) state =
  global_parameters :: "'r parameters"
  individuals :: "'i list"
  operators :: nat
  cycle :: int

type_synonym ('i, 'x, 'r) compute =
  "'x \<Rightarrow> 'r parameters \<Rightarrow> int \<Rightarrow> 'i list \<Rightarrow> error + 'r jsval"

type_synonym ('i, 'x, 'r) external =
  "'x \<Rightarrow> ('i, 'r) state \<times> 'x arrays \<Rightarrow> error + ('i, 'r) state \<times> 'x arrays"

text \<open>
  \<open>operator.change(state)\<close>. The operators of this repository write
  \<open>state.global_parameters\<close> only; an external operator may change the state and the
  arrays.
\<close>

fun change ::
  "('i, 'x, 'r) compute \<Rightarrow> ('i, 'x, 'r) external \<Rightarrow> 'x operator
     \<Rightarrow> ('i, 'r) state \<times> 'x arrays \<Rightarrow> error + ('i, 'r) state \<times> 'x arrays" where
  "change compute ext BaseOperator (state, arrays) = Inl TypeError"
| "change compute ext (CycleStopOperator c) (state, arrays) =
     (if cycle state = c
      then Inr (state\<lparr>global_parameters := (global_parameters state)(''stop'' \<mapsto> JBool True)\<rparr>,
                arrays)
      else Inr (state, arrays))"
| "change compute ext (StatisticsOperator name x) (state, arrays) =
     (case compute x (global_parameters state) (cycle state) (individuals state) of
        Inl e \<Rightarrow> Inl e
      | Inr v \<Rightarrow>
          Inr (state\<lparr>global_parameters := (global_parameters state)(name \<mapsto> v)\<rparr>, arrays))"
| "change compute ext (ExternalOperator x) (state, arrays) = ext x (state, arrays)"

text \<open>
  \<open>for (let operator of state.operators) operator.change(state)\<close>: the array iterator
  keeps the array it was created on (reference \<open>r\<close>) and an index \<open>i\<close>; each step reads the
  array's current length and its current element at \<open>i\<close>. The loop need not end (an
  operator may push another one every time): \<open>None\<close> is a loop that never returns.
  Iterating what is not an array is a \<open>TypeError\<close>.
\<close>

partial_function (option) for_of_operators ::
  "('i, 'x, 'r) compute \<Rightarrow> ('i, 'x, 'r) external \<Rightarrow> nat \<Rightarrow> nat
     \<Rightarrow> ('i, 'r) state \<times> 'x arrays \<Rightarrow> (error + ('i, 'r) state \<times> 'x arrays) option" where
  "for_of_operators compute ext r i w =
     (case nth_or_undefined (snd w) r of
        None \<Rightarrow> Some (Inl TypeError)
      | Some array \<Rightarrow>
          if i < length array
          then (case change compute ext (array ! i) w of
                  Inl e \<Rightarrow> Some (Inl e)
                | Inr w' \<Rightarrow> for_of_operators compute ext r (Suc i) w')
          else Some (Inr w))"

text \<open>\<open>sim_cycle\<close>: the loop over \<open>state.operators\<close>, then \<open>state.cycle += 1\<close>.\<close>

definition sim_cycle ::
  "('i, 'x, 'r) compute \<Rightarrow> ('i, 'x, 'r) external
     \<Rightarrow> ('i, 'r) state \<times> 'x arrays \<Rightarrow> (error + ('i, 'r) state \<times> 'x arrays) option" where
  "sim_cycle compute ext w =
     (case for_of_operators compute ext (operators (fst w)) 0 w of
        None \<Rightarrow> None
      | Some (Inl e) \<Rightarrow> Some (Inl e)
      | Some (Inr (state', arrays')) \<Rightarrow> Some (Inr (state'\<lparr>cycle := cycle state' + 1\<rparr>, arrays')))"

text \<open>
  \<open>while (state.global_parameters.stop === false) cycle(state)\<close>. The loop need not end:
  \<open>None\<close> is a run that never returns.
\<close>

partial_function (option) unspecified_loop ::
  "('i, 'x, 'r) compute \<Rightarrow> ('i, 'x, 'r) external
     \<Rightarrow> ('i, 'r) state \<times> 'x arrays \<Rightarrow> (error + ('i, 'r) state \<times> 'x arrays) option" where
  "unspecified_loop compute ext w =
     (if global_parameters (fst w) ''stop'' = Some (JBool False)
      then (case sim_cycle compute ext w of
              None \<Rightarrow> None
            | Some (Inl e) \<Rightarrow> Some (Inl e)
            | Some (Inr w') \<Rightarrow> unspecified_loop compute ext w')
      else Some (Inr w))"

text \<open>
  The state both drivers start from; \<open>operators\<close> is the reference they were passed.
\<close>

definition initial_state :: "'i list \<Rightarrow> nat \<Rightarrow> int \<Rightarrow> ('i, 'r) state" where
  "initial_state inds ops previous_cycle =
     \<lparr>global_parameters = [''stop'' \<mapsto> JBool False], individuals = inds,
      operators = ops, cycle = previous_cycle\<rparr>"

definition sim_do_unspecified_cycles ::
  "('i, 'x, 'r) compute \<Rightarrow> ('i, 'x, 'r) external \<Rightarrow> 'i list \<Rightarrow> nat \<Rightarrow> int \<Rightarrow> 'x arrays
     \<Rightarrow> (error + ('i, 'r) state \<times> 'x arrays) option" where
  "sim_do_unspecified_cycles compute ext inds ops previous_cycle arrays =
     unspecified_loop compute ext (initial_state inds ops previous_cycle, arrays)"

text \<open>
  \<open>do_async_cycles\<close> runs one cycle on a state it builds afresh and hands the callback that
  state and, unless \<open>stop\<close> is truthy, \<open>return_callback\<close>: itself bound to the four
  arguments recorded in \<open>resume\<close>. The result below is what the callback receives (with
  the arrays as the cycle left them). The \<open>global_parameters\<close> argument is never read by
  the body.
\<close>

record ('i, 'r) resume =
  resume_individuals :: "'i list"
  resume_operators :: nat
  resume_previous_cycle :: int
  resume_global_parameters :: "'r parameters"

definition sim_do_async_cycles ::
  "('i, 'x, 'r) compute \<Rightarrow> ('i, 'x, 'r) external \<Rightarrow> 'i list \<Rightarrow> nat \<Rightarrow> int
     \<Rightarrow> 'r parameters \<Rightarrow> 'x arrays
     \<Rightarrow> (error + ('i, 'r) state \<times> 'x arrays \<times> ('i, 'r) resume option) option" where
  "sim_do_async_cycles compute ext inds ops previous_cycle gp arrays =
     (case sim_cycle compute ext (initial_state inds ops previous_cycle, arrays) of
        None \<Rightarrow> None
      | Some (Inl e) \<Rightarrow> Some (Inl e)
      | Some (Inr (state, arrays')) \<Rightarrow>
          Some (Inr (state, arrays',
               if \<not> truthy (get_parameter (global_parameters state) ''stop'')
               then Some \<lparr>resume_individuals = individuals state,
                          resume_operators = operators state,
                          resume_previous_cycle = previous_cycle + 1,
                          resume_global_parameters = global_parameters state\<rparr>
               else None)))"

text \<open>
  \<open>do_n_cycles\<close>: \<open>add_operators = operators.slice()\<close> is a new array, to which the stop
  operator is pushed. With a callback the async driver is started (and the callback receives
  the first delivery); without one the result is what \<open>do_unspecified_cycles\<close> returns.
\<close>

datatype ('s, 'c) driven = Returned 's | Called_back 'c

definition sim_do_n_cycles ::
  "('i, 'x, 'r) compute \<Rightarrow> ('i, 'x, 'r) external \<Rightarrow> int \<Rightarrow> 'i list \<Rightarrow> nat \<Rightarrow> int
     \<Rightarrow> bool \<Rightarrow> 'x arrays
     \<Rightarrow> (error + (('i, 'r) state \<times> 'x arrays,
                   ('i, 'r) state \<times> 'x arrays \<times> ('i, 'r) resume option) driven) option" where
  "sim_do_n_cycles compute ext n inds ops previous_cycle callback arrays =
     (case nth_or_undefined arrays ops of
        None \<Rightarrow> Some (Inl TypeError)
      | Some operators_array \<Rightarrow>
          (let add_operators = length arrays;
               arrays' = arrays @ [operators_array @ [CycleStopOperator (n + previous_cycle)]]
           in if callback
              then (case sim_do_async_cycles compute ext inds add_operators previous_cycle
                           Map.empty arrays' of
                      None \<Rightarrow> None
                    | Some (Inl e) \<Rightarrow> Some (Inl e)
                    | Some (Inr delivered) \<Rightarrow> Some (Inr (Called_back delivered)))
              else (case sim_do_unspecified_cycles compute ext inds add_operators previous_cycle
                           arrays' of
                      None \<Rightarrow> None
                    | Some (Inl e) \<Rightarrow> Some (Inl e)
                    | Some (Inr w) \<Rightarrow> Some (Inr (Returned w)))))"

text \<open>
  A caller of the async driver that invokes \<open>resume\<close> whenever it is given one, and keeps
  the state delivered without one.
\<close>

partial_function (option) resume_until_stopped ::
  "('i, 'x, 'r) compute \<Rightarrow> ('i, 'x, 'r) external \<Rightarrow> ('i, 'r) resume \<times> 'x arrays
     \<Rightarrow> (error + ('i, 'r) state \<times> 'x arrays) option" where
  "resume_until_stopped compute ext call =
     (case sim_do_async_cycles compute ext (resume_individuals (fst call))
             (resume_operators (fst call)) (resume_previous_cycle (fst call))
             (resume_global_parameters (fst call)) (snd call) of
        None \<Rightarrow> None
      | Some (Inl e) \<Rightarrow> Some (Inl e)
      | Some (Inr (state, arrays', None)) \<Rightarrow> Some (Inr (state, arrays'))
      | Some (Inr (state, arrays', Some r')) \<Rightarrow> resume_until_stopped compute ext (r', arrays'))"

text \<open>A run of \<open>k\<close> cycle steps.\<close>

fun cycles ::
  "('i, 'x, 'r) compute \<Rightarrow> ('i, 'x, 'r) external \<Rightarrow> nat
     \<Rightarrow> ('i, 'r) state \<times> 'x arrays \<Rightarrow> (error + ('i, 'r) state \<times> 'x arrays) option" where
  "cycles compute ext 0 w = Some (Inr w)"
| "cycles compute ext (Suc k) w =
     (case sim_cycle compute ext w of
        None \<Rightarrow> None
      | Some (Inl e) \<Rightarrow> Some (Inl e)
      | Some (Inr w') \<Rightarrow> cycles compute ext k w')"

text \<open>Example data: a population of numbers, no statistics and no external operators.\<close>

definition no_compute :: "(nat, unit, unit) compute" where
  "no_compute x gp c inds = Inl TypeError"

definition no_external :: "(nat, unit, unit) external" where
  "no_external x w = Inl TypeError"

text \<open>
  Example data: a statistics subclass whose \<open>compute\<close> returns one more than the value
  stored under \<open>count\<close> (1 when there is none), run ahead of \<open>CycleStopOperator(1)\<close>.
\<close>

definition running_count :: "(nat, unit, unit) compute" where
  "running_count x gp c inds =
     Inr (JNum (case gp ''count'' of Some (JNum k) \<Rightarrow> k + 1 | _ \<Rightarrow> 1))"

definition counting_operators :: "unit operator list" where
  "counting_operators = [StatisticsOperator ''count'' (), CycleStopOperator 1]"

definition first_call :: "(nat, unit) resume" where
  "first_call = \<lparr>resume_individuals = [], resume_operators = 0,
                 resume_previous_cycle = 0, resume_global_parameters = Map.empty\<rparr>"

text \<open>
  Example data: an external operator that pushes \<open>CycleStopOperator(0)\<close> onto the array
  \<open>state.operators\<close> refers to.
\<close>

definition pushing :: "(nat, unit, unit) external" where
  "pushing x w =
     (case w of (state, arrays) \<Rightarrow>
        Inr (state, arrays[operators state := arrays ! operators state @ [CycleStopOperator 0]]))"

section \<open>Allele-count statistics\<close>















section \<open>Properties: chromosome construction\<close>

text \<open>
  Claim C7. Constructing a base chromosome succeeds, with \<open>size\<close> equal to
  \<open>markers.length\<close>, whenever \<open>distances\<close> is absent or has exactly
  \<open>markers.length - 1\<close> entries (the subtraction is the integer one: an empty marker
  list admits no distances at all); with any other non-null \<open>distances\<close> it throws
  \<open>RangeError\<close>.
\<close>

theorem Chromosome_construction:
  "((distances = None \<or> (\<exists>d. distances = Some d \<and> int (length d) = int (length markers) - 1))
      \<longrightarrow> (\<exists>c. Chromosome markers distances = Inr c \<and> chr_size c = length markers
                \<and> markers_field c = markers \<and> distances_field c = distances))
   \<and> ((\<exists>d. distances = Some d \<and> int (length d) \<noteq> int (length markers) - 1)
      \<longrightarrow> Chromosome markers distances = Inl RangeError)"
  by (auto simp: Chromosome_def new_chromosome_def chr_size_def)

theorem Chromosome_construction_witness:
  "(\<exists>c. Chromosome [default_SNP, default_SNP] (Some [1]) = Inr c \<and> chr_size c = 2)
   \<and> (\<exists>c. Chromosome [default_SNP] None = Inr c \<and> chr_size c = 1)
   \<and> Chromosome [] (Some []) = Inl RangeError
   \<and> Chromosome [default_SNP] (Some [1, 2]) = Inl RangeError"
  using Chromosome_construction [of "Some [1]" "[default_SNP, default_SNP]"]
    Chromosome_construction [of None "[default_SNP]"]
    Chromosome_construction [of "Some []" "[]"]
    Chromosome_construction [of "Some [1, 2]" "[default_SNP]"]
  by auto

section \<open>Properties: genome layout\<close>

lemma compute_marker_positions_run:
  assumes "distinct (map fst suf)" and "\<And>n c. (n, c) \<in> set suf \<Longrightarrow> map_of md n = Some c"
  shows "\<exists>starts'. compute_marker_positions md (map fst suf) (order, starts, start)
            = Inr (order @ map fst suf, starts', start + sum_list (sizes suf))
          \<and> (\<forall>j<length suf. map_of starts' (fst (suf ! j))
                 = Some (start + sum_list (sizes (take j suf))))
          \<and> (\<forall>n. n \<notin> fst ` set suf \<longrightarrow> map_of starts' n = map_of starts n)"
  using assms
proof (induction suf arbitrary: order starts start)
  case Nil
  then show ?case by simp
next
  case (Cons p suf)
  obtain n c where p: "p = (n, c)" by (cases p)
  have look: "map_of md n = Some c" using Cons.prems(2) p by simp
  have d: "distinct (map fst suf)" and nin: "n \<notin> fst ` set suf"
    using Cons.prems(1) p by auto
  from Cons.IH [OF d, of "order @ [n]" "AList.update n start starts" "start + chr_size c"]
    Cons.prems(2)
  obtain starts' where
    run: "compute_marker_positions md (map fst suf)
            (order @ [n], AList.update n start starts, start + chr_size c)
          = Inr ((order @ [n]) @ map fst suf, starts', start + chr_size c + sum_list (sizes suf))"
    and at: "\<forall>j<length suf. map_of starts' (fst (suf ! j))
                 = Some (start + chr_size c + sum_list (sizes (take j suf)))"
    and other: "\<forall>m. m \<notin> fst ` set suf \<longrightarrow> map_of starts' m = map_of (AList.update n start starts) m"
    by auto
  have "\<forall>j<length (p # suf). map_of starts' (fst ((p # suf) ! j))
                 = Some (start + sum_list (sizes (take j (p # suf))))"
  proof (intro allI impI)
    fix j assume j: "j < length (p # suf)"
    show "map_of starts' (fst ((p # suf) ! j)) = Some (start + sum_list (sizes (take j (p # suf))))"
    proof (cases j)
      case 0
      then show ?thesis using other nin p by (simp add: update_conv')
    next
      case (Suc k)
      then show ?thesis using at j p by (simp add: add.assoc)
    qed
  qed
  moreover have "\<forall>m. m \<notin> fst ` set (p # suf) \<longrightarrow> map_of starts' m = map_of starts m"
    using other p by (auto simp: update_conv')
  ultimately show ?case using run look p by (simp add: add.assoc)
qed

lemma Genome_built:
  assumes "distinct (map fst md)" and "md \<noteq> []"
  shows "\<exists>starts. Genome md = Inr \<lparr>metadata = md, marker_order = map fst md, marker_start = starts,
                       genome_size = sum_list (sizes md)\<rparr>
          \<and> (\<forall>j<length md. map_of starts (fst (md ! j)) = Some (sum_list (sizes (take j md))))"
proof -
  from compute_marker_positions_run [of md md "[]" "[]" 0] assms(1)
  obtain starts where
    run: "compute_marker_positions md (map fst md) ([], [], 0)
            = Inr (map fst md, starts, sum_list (sizes md))"
    and at: "\<forall>j<length md. map_of starts (fst (md ! j)) = Some (sum_list (sizes (take j md)))"
    by auto
  obtain n c where lst: "last md = (n, c)" by (cases "last md")
  have mem: "(n, c) \<in> set md" using lst assms(2) last_in_set by metis
  have ln: "last (map fst md) = n" using lst assms(2) by (simp add: last_map)
  have look: "map_of md n = Some c" using assms(1) mem by simp
  have idx: "md ! (length md - 1) = (n, c)" using lst assms(2) by (simp add: last_conv_nth)
  have "map_of starts n = Some (sum_list (sizes (take (length md - 1) md)))"
    using at [rule_format, of "length md - 1"] idx assms(2) by simp
  moreover have "sum_list (sizes (take (length md - 1) md)) + chr_size c = sum_list (sizes md)"
  proof -
    have "md = butlast md @ [(n, c)]" using lst assms(2) append_butlast_last_id by metis
    moreover have "sum_list (sizes (butlast md @ [(n, c)])) = sum_list (sizes (butlast md)) + chr_size c"
      by simp
    ultimately have "sum_list (sizes md) = sum_list (sizes (butlast md)) + chr_size c"
      by simp
    then show ?thesis by (simp add: butlast_conv_take)
  qed
  ultimately have "Genome md = Inr \<lparr>metadata = md, marker_order = map fst md,
      marker_start = starts, genome_size = sum_list (sizes md)\<rparr>"
    using run ln look assms(2) by (simp add: Genome_def)
  then show ?thesis using at by blast
qed

lemma sizes_take_grow:
  assumes "i < j" and "j \<le> length md"
  shows "sum_list (sizes (take i md)) + chr_size (snd (md ! i)) \<le> sum_list (sizes (take j md))"
proof -
  have "take j md = take (Suc i) md @ drop (Suc i) (take j md)"
    using assms by (metis Suc_leI append_take_drop_id min.absorb1 take_take)
  then have "sum_list (sizes (take j md))
       = sum_list (sizes (take (Suc i) md)) + sum_list (sizes (drop (Suc i) (take j md)))"
    by (metis map_append sum_list_append)
  moreover have "sum_list (sizes (take (Suc i) md))
       = sum_list (sizes (take i md)) + chr_size (snd (md ! i))"
    using assms by (simp add: take_Suc_conv_app_nth)
  ultimately show ?thesis by simp
qed

lemma compute_marker_positions_total:
  assumes "set names \<subseteq> fst ` set md"
  shows "\<exists>starts' start'. compute_marker_positions md names (order, starts, start)
            = Inr (order @ names, starts', start')
          \<and> fst ` set starts \<union> set names \<subseteq> fst ` set starts'"
  using assms
proof (induction names arbitrary: order starts start)
  case Nil
  then show ?case by simp
next
  case (Cons n names)
  from Cons.prems obtain c where look: "map_of md n = Some c"
    by (metis list.set_intros(1) map_of_eq_None_iff not_None_eq subsetD)
  from Cons.IH [of "order @ [n]" "AList.update n start starts" "start + chr_size c"] Cons.prems
  obtain starts' start' where
    run: "compute_marker_positions md names (order @ [n], AList.update n start starts, start + chr_size c)
          = Inr ((order @ [n]) @ names, starts', start')"
    and keys: "fst ` set (AList.update n start starts) \<union> set names \<subseteq> fst ` set starts'"
    by auto
  from keys have "fst ` set starts \<union> set (n # names) \<subseteq> fst ` set starts'"
    by (auto simp: dom_update)
  then show ?case using run look by simp
qed

lemma Genome_nonempty_succeeds:
  assumes "md \<noteq> []"
  shows "\<exists>g. Genome md = Inr g"
proof -
  from compute_marker_positions_total [of "map fst md" md "[]" "[]" 0]
  obtain starts start where
    run: "compute_marker_positions md (map fst md) ([], [], 0) = Inr (map fst md, starts, start)"
    and keys: "set (map fst md) \<subseteq> fst ` set starts"
    by auto
  have ne: "map fst md \<noteq> []" using assms by simp
  then have mem: "last (map fst md) \<in> set (map fst md)" by (rule last_in_set)
  then obtain c where look: "map_of md (last (map fst md)) = Some c"
    by (metis map_of_eq_None_iff not_None_eq set_map)
  from mem keys obtain s where st: "map_of starts (last (map fst md)) = Some s"
    by (metis map_of_eq_None_iff not_None_eq subsetD)
  show ?thesis using run ne look st by (simp add: Genome_def)
qed

text \<open>
  Claim C8. \<open>new Genome({})\<close> throws (reading \<open>.size\<close> of the missing last
  chromosome is a \<open>TypeError\<close>), so no genome is produced; with at least one
  chromosome in the metadata the constructor returns a genome.
\<close>

theorem Genome_construction:
  "Genome [] = Inl TypeError \<and> (md \<noteq> [] \<longrightarrow> (\<exists>g. Genome md = Inr g))"
  using Genome_nonempty_succeeds [of md] by (simp add: Genome_def)

theorem Genome_construction_witness:
  "Genome [] = Inl TypeError \<and> (\<exists>g. Genome md0 = Inr g)"
proof -
  have "md0 \<noteq> []" by (simp add: md0_def)
  with Genome_construction [of md0] show ?thesis by blast
qed

text \<open>
  Claim C4. For a genome built from non-empty metadata (an object: every chromosome name
  occurs once): \<open>size\<close> is the sum of the chromosomes' sizes; the start offset of the
  \<open>j\<close>-th chromosome in \<open>marker_order\<close> is the sum of the sizes before it, so the offsets
  increase along \<open>marker_order\<close> and an earlier chromosome's range ends where or before a
  later one starts (no overlap); every range ends within \<open>size\<close>; and \<open>size\<close> is the last
  chromosome's start plus its size.
\<close>

theorem Genome_layout:
  assumes "distinct (map fst md)" and "md \<noteq> []"
  shows "\<exists>g. Genome md = Inr g
          \<and> metadata g = md \<and> marker_order g = map fst md
          \<and> genome_size g = sum_list (sizes md)
          \<and> (\<forall>j<length md. get_marker_start g (marker_order g ! j)
                 = Some (sum_list (sizes (take j md))))
          \<and> (\<forall>i j. i < j \<and> j < length md \<longrightarrow>
                 (\<exists>si sj. get_marker_start g (marker_order g ! i) = Some si
                    \<and> get_marker_start g (marker_order g ! j) = Some sj
                    \<and> si \<le> sj \<and> si + chr_size (snd (md ! i)) \<le> sj))
          \<and> (\<forall>j<length md. \<exists>s. get_marker_start g (fst (md ! j)) = Some s
                 \<and> s + chr_size (snd (md ! j)) \<le> genome_size g)
          \<and> (\<exists>s. get_marker_start g (last (marker_order g)) = Some s
                 \<and> genome_size g = s + chr_size (snd (last md)))"
proof -
  from Genome_built [OF assms] obtain starts where
    g: "Genome md = Inr \<lparr>metadata = md, marker_order = map fst md, marker_start = starts,
                       genome_size = sum_list (sizes md)\<rparr>"
    and at: "\<forall>j<length md. map_of starts (fst (md ! j)) = Some (sum_list (sizes (take j md)))"
    by blast
  define G where "G = \<lparr>metadata = md, marker_order = map fst md, marker_start = starts,
                       genome_size = sum_list (sizes md)\<rparr>"
  have start_at: "get_marker_start G (fst (md ! j)) = Some (sum_list (sizes (take j md)))"
    if "j < length md" for j
    using at that by (simp add: get_marker_start_def G_def)
  have grow: "sum_list (sizes (take i md)) + chr_size (snd (md ! i)) \<le> sum_list (sizes (take j md))"
    if "i < j" "j \<le> length md" for i j
    using that by (rule sizes_take_grow)
  have c1: "\<forall>j<length md. get_marker_start G (marker_order G ! j)
                 = Some (sum_list (sizes (take j md)))"
    using start_at by (simp add: G_def)
  have c2: "\<forall>i j. i < j \<and> j < length md \<longrightarrow>
                 (\<exists>si sj. get_marker_start G (marker_order G ! i) = Some si
                    \<and> get_marker_start G (marker_order G ! j) = Some sj
                    \<and> si \<le> sj \<and> si + chr_size (snd (md ! i)) \<le> sj)"
  proof (intro allI impI)
    fix i j assume ij: "i < j \<and> j < length md"
    then have "sum_list (sizes (take i md)) + chr_size (snd (md ! i)) \<le> sum_list (sizes (take j md))"
      using grow [of i j] by simp
    moreover have "get_marker_start G (marker_order G ! i) = Some (sum_list (sizes (take i md)))"
      and "get_marker_start G (marker_order G ! j) = Some (sum_list (sizes (take j md)))"
      using c1 ij by auto
    ultimately show "\<exists>si sj. get_marker_start G (marker_order G ! i) = Some si
                    \<and> get_marker_start G (marker_order G ! j) = Some sj
                    \<and> si \<le> sj \<and> si + chr_size (snd (md ! i)) \<le> sj"
      by auto
  qed
  have c3: "\<forall>j<length md. \<exists>s. get_marker_start G (fst (md ! j)) = Some s
                 \<and> s + chr_size (snd (md ! j)) \<le> genome_size G"
  proof (intro allI impI)
    fix j assume j: "j < length md"
    have "sum_list (sizes (take j md)) + chr_size (snd (md ! j)) \<le> sum_list (sizes (take (length md) md))"
      using grow [of j "length md"] j by simp
    then show "\<exists>s. get_marker_start G (fst (md ! j)) = Some s
                 \<and> s + chr_size (snd (md ! j)) \<le> genome_size G"
      using start_at [OF j] by (simp add: G_def)
  qed
  have c4: "\<exists>s. get_marker_start G (last (marker_order G)) = Some s
                 \<and> genome_size G = s + chr_size (snd (last md))"
  proof -
    have l: "length md - 1 < length md" using assms(2) by simp
    have lm: "last md = md ! (length md - 1)" using assms(2) by (simp add: last_conv_nth)
    have "last (marker_order G) = fst (md ! (length md - 1))"
      using assms(2) lm by (simp add: G_def last_map)
    moreover have "sum_list (sizes md)
        = sum_list (sizes (take (length md - 1) md)) + chr_size (snd (md ! (length md - 1)))"
    proof -
      have "md = take (length md - 1) md @ [md ! (length md - 1)]"
        using l by (metis Suc_diff_1 assms(2) length_greater_0_conv order_refl
            take_Suc_conv_app_nth take_all)
      then have "sum_list (sizes md)
          = sum_list (sizes (take (length md - 1) md @ [md ! (length md - 1)]))" by simp
      then show ?thesis by simp
    qed
    ultimately show ?thesis using start_at [OF l] lm by (simp add: G_def)
  qed
  have "metadata G = md \<and> marker_order G = map fst md \<and> genome_size G = sum_list (sizes md)"
    by (simp add: G_def)
  with g c1 c2 c3 c4 show ?thesis unfolding G_def [symmetric] by blast
qed

theorem Genome_layout_witness:
  "\<exists>g. Genome md0 = Inr g \<and> marker_order g = [''x'', ''unlinked''] \<and> genome_size g = 4
      \<and> get_marker_start g ''x'' = Some 0 \<and> get_marker_start g ''unlinked'' = Some 2"
proof -
  have d: "distinct (map fst md0)" and ne: "md0 \<noteq> []" by (simp_all add: md0_def)
  from Genome_layout [OF d ne] obtain g where
    g: "Genome md0 = Inr g" "marker_order g = map fst md0" "genome_size g = sum_list (sizes md0)"
    and at: "\<forall>j<length md0. get_marker_start g (marker_order g ! j)
                 = Some (sum_list (sizes (take j md0)))"
    by blast
  have "get_marker_start g (marker_order g ! 0) = Some (sum_list (sizes (take 0 md0)))"
    using at by (simp add: md0_def)
  moreover have "get_marker_start g (marker_order g ! 1) = Some (sum_list (sizes (take 1 md0)))"
    using at by (simp add: md0_def)
  ultimately show ?thesis using g by (auto simp: md0_def chr_size_def)
qed

section \<open>Properties: genome buffers and haploid transmission\<close>

lemma for_each_snoc:
  "for_each (xs @ [x]) body s =
     (case for_each xs body s of Inl e \<Rightarrow> Inl e | Inr s' \<Rightarrow> body x s')"
  by (induction xs arbitrary: s) (auto split: sum.splits)

lemma length_copied [simp]: "length (copied g ofs pg pp n) = length g"
  by (simp add: copied_def)

lemma nth_copied:
  "k < length g \<Longrightarrow> copied g ofs pg pp n ! k =
     (if ofs \<le> k \<and> k < ofs + n then to_uint8 (typed_get pg (pp + (k - ofs))) else g ! k)"
  by (simp add: copied_def)

lemma copied_0: "copied g ofs pg pp 0 = g"
  by (rule nth_equalityI) (auto simp: nth_copied)

lemma copied_step:
  assumes "pg' = pg \<or> (pg' = copied g ofs pg pp n \<and> pg = g \<and> (ofs \<le> pp \<or> pp + Suc n \<le> ofs))"
  shows "typed_set (copied g ofs pg pp n) (ofs + n) (typed_get pg' (pp + n))
           = copied g ofs pg pp (Suc n)"
proof -
  have rd: "typed_get pg' (pp + n) = typed_get pg (pp + n)"
    using assms by (auto simp: typed_get_def nth_copied)
  show ?thesis
    by (rule nth_equalityI) (auto simp: typed_set_def nth_copied rd nth_list_update split: if_splits)
qed

lemma copy_allele_Some:
  "store p = Some pg \<Longrightarrow> store individual = Some g \<Longrightarrow>
   copy_allele individual (Some p) dst src store
     = Inr (store(individual \<mapsto> typed_set g dst (typed_get pg src)))"
  by (simp add: copy_allele_def)

lemma Chromosome_reproduce_copied:
  assumes "store individual = Some g" and "store p = Some pg"
    and "individual \<noteq> p \<or> ofs \<le> pp \<or> pp + n \<le> ofs"
  shows "for_each [0..<n] (\<lambda>i. copy_allele individual (Some p) (ofs + i) (pp + i)) store
           = Inr (store(individual \<mapsto> copied g ofs pg pp n))"
  using assms(3)
proof (induction n)
  case 0
  have "store(individual \<mapsto> g) = store" using assms(1) by auto
  then show ?case by (simp add: copied_0)
next
  case (Suc n)
  define body where "body = (\<lambda>i. copy_allele individual (Some p) (ofs + i) (pp + i))"
  define mid where "mid = store(individual \<mapsto> copied g ofs pg pp n)"
  have "individual \<noteq> p \<or> ofs \<le> pp \<or> pp + n \<le> ofs"
    using Suc.prems by auto
  then have run: "for_each [0..<n] body store = Inr mid"
    unfolding body_def mid_def by (rule Suc.IH)
  have mid_ind: "mid individual = Some (copied g ofs pg pp n)"
    by (simp add: mid_def)
  obtain pg' where mid_p: "mid p = Some pg'"
    and pg': "pg' = pg \<or> (pg' = copied g ofs pg pp n \<and> pg = g \<and> (ofs \<le> pp \<or> pp + Suc n \<le> ofs))"
    using assms(1,2) Suc.prems by (cases "individual = p") (auto simp: mid_def)
  have "for_each [0..<Suc n] body store = body n mid"
    by (simp add: for_each_snoc run)
  also have "\<dots> = Inr (mid(individual \<mapsto>
                 typed_set (copied g ofs pg pp n) (ofs + n) (typed_get pg' (pp + n))))"
    unfolding body_def using mid_p mid_ind by (rule copy_allele_Some)
  also have "mid(individual \<mapsto>
                 typed_set (copied g ofs pg pp n) (ofs + n) (typed_get pg' (pp + n)))
             = store(individual \<mapsto> copied g ofs pg pp (Suc n))"
    by (simp add: copied_step [OF pg'] mid_def)
  finally show ?case unfolding body_def .
qed

lemma Chromosome_reproduce_result:
  assumes "store individual = Some g" and "store p = Some pg"
    and "individual \<noteq> p \<or> ofs \<le> pp \<or> pp + size_field c \<le> ofs"
  shows "Chromosome_reproduce c store individual (Some p) ofs pp
           = Inr (store(individual \<mapsto> copied g ofs pg pp (size_field c)))"
  unfolding Chromosome_reproduce_def using assms by (rule Chromosome_reproduce_copied)

lemma slice_eqI:
  assumes "ofs1 + n \<le> length xs" and "ofs2 + n \<le> length ys"
    and "\<And>i. i < n \<Longrightarrow> xs ! (ofs1 + i) = ys ! (ofs2 + i)"
  shows "take n (drop ofs1 xs) = take n (drop ofs2 ys)"
  using assms by (intro nth_equalityI) auto

text \<open>
  Claim C10, as amended. When \<open>individual.genome\<close> and \<open>parent.genome\<close> are two different
  buffers (the arguments are neither the same object nor two objects sharing one
  \<open>Uint8Array\<close>), the base \<open>reproduce\<close> changes nothing but \<open>individual.genome\<close>: the
  buffer keeps its length, every byte outside \<open>[ofs_position, ofs_position + size)\<close> keeps
  its value, and the byte at \<open>ofs_position + i\<close> becomes
  \<open>parent.genome[parent_position + i]\<close> (0 where the parent's buffer has no such position);
  \<open>parent.genome\<close> and every other buffer are unmodified.
\<close>

theorem Chromosome_reproduce_frame:
  assumes "store individual = Some g" and "store parent = Some pg"
    and "individual \<noteq> parent"
  shows "\<exists>store' g'. Chromosome_reproduce c store individual (Some parent) ofs pp = Inr store'
          \<and> store' individual = Some g' \<and> store' parent = Some pg
          \<and> (\<forall>x. x \<noteq> individual \<longrightarrow> store' x = store x)
          \<and> length g' = length g
          \<and> (\<forall>k<length g. \<not> (ofs \<le> k \<and> k < ofs + size_field c) \<longrightarrow> g' ! k = g ! k)
          \<and> (\<forall>i < size_field c. ofs + i < length g \<longrightarrow>
                g' ! (ofs + i) = (if pp + i < length pg then pg ! (pp + i) else 0))"
proof -
  let ?g' = "copied g ofs pg pp (size_field c)"
  have run: "Chromosome_reproduce c store individual (Some parent) ofs pp
           = Inr (store(individual \<mapsto> ?g'))"
    using assms by (intro Chromosome_reproduce_result) simp_all
  have "\<forall>k<length g. \<not> (ofs \<le> k \<and> k < ofs + size_field c) \<longrightarrow> ?g' ! k = g ! k"
    by (simp add: nth_copied)
  moreover have "\<forall>i < size_field c. ofs + i < length g \<longrightarrow>
                ?g' ! (ofs + i) = (if pp + i < length pg then pg ! (pp + i) else 0)"
    by (simp add: nth_copied typed_get_def to_uint8_def)
  ultimately show ?thesis using run assms(2,3) by auto
qed

theorem Chromosome_reproduce_frame_witness:
  "\<exists>store'. Chromosome_reproduce plain_of_two family 0 (Some 1) 0 0 = Inr store'
      \<and> store' 0 = Some [1, 0] \<and> store' 1 = Some [1, 0] \<and> store' 2 = Some [2, 0]"
proof -
  have a: "family 0 = Some [0, 0]" and b: "family 1 = Some [1, 0]" and ne: "(0::nat) \<noteq> 1"
    by (simp_all add: family_def)
  from Chromosome_reproduce_frame [OF a b ne, of plain_of_two 0 0]
  obtain store' g' where
    run: "Chromosome_reproduce plain_of_two family 0 (Some 1) 0 0 = Inr store'"
    and g': "store' 0 = Some g'" "length g' = 2"
    and par: "store' 1 = Some [1, 0]"
    and others: "\<forall>x. x \<noteq> 0 \<longrightarrow> store' x = family x"
    and inside: "\<forall>i < size_field plain_of_two. 0 + i < length [0::byte, 0] \<longrightarrow>
                g' ! (0 + i) = (if 0 + i < length [1::byte, 0] then [1, 0] ! (0 + i) else 0)"
    by auto
  have "g' ! 0 = 1" using inside [rule_format, of 0] by (simp add: plain_of_two_def)
  moreover have "g' ! 1 = 0" using inside [rule_format, of 1] by (simp add: plain_of_two_def)
  ultimately have "g' = [1, 0]"
    using g'(2) by (intro nth_equalityI) (auto simp: less_Suc_eq numeral_2_eq_2)
  moreover have "store' 2 = Some [2, 0]" using others by (simp add: family_def)
  ultimately show ?thesis using run g'(1) par by simp
qed

text \<open>
  Claim C10 as stated fails when \<open>individual.genome\<close> and \<open>parent.genome\<close> are one and the
  same buffer: on \<open>[1, 2, 3]\<close>, with size 2, \<open>ofs_position = 1\<close> and \<open>parent_position = 0\<close>,
  the loop reads the byte it has just written and leaves \<open>[1, 1, 1]\<close>, so \<open>parent.genome\<close>
  has been modified.
\<close>

theorem Chromosome_reproduce_aliased_counterexample:
  "one_genome 0 = Some [1, 2, 3]
   \<and> Chromosome_reproduce plain_of_two one_genome 0 (Some 0) 1 0
        = Inr (one_genome(0 \<mapsto> [1, 1, 1]))"
  by (simp add: Chromosome_reproduce_def plain_of_two_def one_genome_def upt_rec
      copy_allele_def typed_get_def typed_set_def to_uint8_def)

text \<open>
  Claim C2. On a chromosome pair (\<open>Autosome\<close> over the base class, total size \<open>2 * h\<close>)
  with \<open>parents = [a, b]\<close>, the Autosome \<open>reproduce\<close> picks \<open>(p1, p2) = (b, a)\<close> when
  \<open>Math.random() < 0.5\<close> and \<open>(a, b)\<close> otherwise. After the call, byte \<open>position + i\<close> of
  \<open>individual.genome\<close> is byte \<open>position + i\<close> of \<open>p1.genome\<close>, and byte
  \<open>position + h + i\<close> is byte \<open>position + i\<close> of \<open>p2.genome\<close>, for every \<open>i < h\<close> (a byte
  the parent's buffer does not have is stored as 0, a byte the individual's buffer does not
  have is not stored). So, with the ranges inside the buffers,
  \<open>individual.genome[position .. position + h)\<close> equals
  \<open>p1.genome[position .. position + h)\<close> and
  \<open>individual.genome[position + h .. position + 2 * h)\<close> equals
  \<open>p2.genome[position .. position + h)\<close>: both halves come from offset \<open>position\<close> of the
  respective parent. Only \<open>individual.genome\<close> is written, and only inside
  \<open>[position, position + 2 * h)\<close>; the equalities hold whether or not the individual's
  buffer is also a parent's.
\<close>

theorem Autosome_reproduce_gametes:
  assumes "layers c = [Autosome]"
    and "store individual = Some g" and "store a = Some ga" and "store b = Some gb"
  shows "\<exists>store' g' g1 g2 p1 p2.
           Autosome_reproduce c random store individual [a, b] position = Inr store'
         \<and> chr_size c = 2 * size_field c
         \<and> (p1, p2) = (if random < 1 / 2 then (b, a) else (a, b))
         \<and> store' individual = Some g' \<and> store' p1 = Some g1 \<and> store' p2 = Some g2
         \<and> (\<forall>i < size_field c. position + i < length g' \<longrightarrow>
               g' ! (position + i) = (if position + i < length g1 then g1 ! (position + i) else 0))
         \<and> (\<forall>i < size_field c. position + size_field c + i < length g' \<longrightarrow>
               g' ! (position + size_field c + i)
                 = (if position + i < length g2 then g2 ! (position + i) else 0))
         \<and> (position + 2 * size_field c \<le> length g'
              \<and> position + size_field c \<le> length g1 \<and> position + size_field c \<le> length g2
              \<longrightarrow> take (size_field c) (drop position g') = take (size_field c) (drop position g1)
                \<and> take (size_field c) (drop (position + size_field c) g')
                     = take (size_field c) (drop position g2))
         \<and> length g' = length g
         \<and> (\<forall>k<length g. k < position \<or> position + 2 * size_field c \<le> k \<longrightarrow> g' ! k = g ! k)
         \<and> (\<forall>x. x \<noteq> individual \<longrightarrow> store' x = store x)"
proof -
  define h where "h = size_field c"
  define p1 where "p1 = (if random < 1 / 2 then b else a)"
  define p2 where "p2 = (if random < 1 / 2 then a else b)"
  have size: "chr_size c = 2 * h" using assms(1) by (simp add: chr_size_def h_def)
  obtain pg1 where pg1: "store p1 = Some pg1"
    using assms(3,4) by (cases "random < 1 / 2") (simp_all add: p1_def)
  obtain pg2 where pg2: "store p2 = Some pg2"
    using assms(3,4) by (cases "random < 1 / 2") (simp_all add: p2_def)
  define g1 where "g1 = copied g position pg1 position h"
  define store1 where "store1 = store(individual \<mapsto> g1)"
  have step1: "Chromosome_reproduce c store individual (Some p1) position position = Inr store1"
    unfolding store1_def g1_def h_def
    using assms(2) pg1 by (intro Chromosome_reproduce_result) simp_all
  have s1_ind: "store1 individual = Some g1" by (simp add: store1_def)
  define pg2' where "pg2' = (if p2 = individual then g1 else pg2)"
  have s1_p2: "store1 p2 = Some pg2'" using pg2 by (simp add: store1_def pg2'_def)
  have len_g1: "length g1 = length g" by (simp add: g1_def)
  define g2 where "g2 = copied g1 (position + h) pg2' position h"
  define store2 where "store2 = store1(individual \<mapsto> g2)"
  have step2: "Chromosome_reproduce c store1 individual (Some p2) (position + h) position
                 = Inr store2"
    unfolding store2_def g2_def h_def
    using s1_ind s1_p2 by (intro Chromosome_reproduce_result) simp_all
  have run: "Autosome_reproduce c random store individual [a, b] position = Inr store2"
    using step1 step2 size
    by (cases "random < 1 / 2")
      (simp_all add: Autosome_reproduce_def nth_or_undefined_def p1_def p2_def)
  have len_g2: "length g2 = length g" by (simp add: g2_def len_g1)
  have g1_first: "g1 ! (position + i) = to_uint8 (typed_get pg1 (position + i))"
    if "i < h" "position + i < length g" for i
    using that by (simp add: g1_def nth_copied)
  have g2_first: "g2 ! (position + i) = g1 ! (position + i)"
    if "i < h" "position + i < length g" for i
    using that len_g1 by (simp add: g2_def nth_copied)
  have g2_second: "g2 ! (position + h + i) = to_uint8 (typed_get pg2' (position + i))"
    if "i < h" "position + h + i < length g" for i
    using that len_g1 by (simp add: g2_def nth_copied)
  define post1 where "post1 = (if p1 = individual then g2 else pg1)"
  define post2 where "post2 = (if p2 = individual then g2 else pg2)"
  have s2_ind: "store2 individual = Some g2" by (simp add: store2_def)
  have s2_p1: "store2 p1 = Some post1"
    using pg1 by (simp add: store2_def store1_def post1_def)
  have s2_p2: "store2 p2 = Some post2"
    using pg2 by (simp add: store2_def store1_def post2_def)
  have byte1: "g2 ! (position + i)
                 = (if position + i < length post1 then post1 ! (position + i) else 0)"
    if "i < h" "position + i < length g2" for i
  proof (cases "p1 = individual")
    case True
    then show ?thesis using that by (simp add: post1_def)
  next
    case False
    then show ?thesis
      using that g1_first [of i] g2_first [of i] len_g2
      by (simp add: post1_def typed_get_def to_uint8_def)
  qed
  have byte2: "g2 ! (position + h + i)
                 = (if position + i < length post2 then post2 ! (position + i) else 0)"
    if "i < h" "position + h + i < length g2" for i
  proof (cases "p2 = individual")
    case True
    then have "pg2' = g1" and post: "post2 = g2" by (simp_all add: pg2'_def post2_def)
    then have "g2 ! (position + h + i) = g1 ! (position + i)"
      using that g2_second [of i] len_g1 len_g2 by (simp add: typed_get_def to_uint8_def)
    moreover have "g2 ! (position + i) = g1 ! (position + i)"
      using that g2_first [of i] len_g2 by simp
    ultimately show ?thesis using that post by simp
  next
    case False
    then show ?thesis
      using that g2_second [of i] len_g2
      by (simp add: pg2'_def post2_def typed_get_def to_uint8_def)
  qed
  have halves: "position + 2 * h \<le> length g2 \<and> position + h \<le> length post1
                  \<and> position + h \<le> length post2
                \<longrightarrow> take h (drop position g2) = take h (drop position post1)
                  \<and> take h (drop (position + h) g2) = take h (drop position post2)"
  proof (intro impI conjI)
    assume r: "position + 2 * h \<le> length g2 \<and> position + h \<le> length post1
                  \<and> position + h \<le> length post2"
    show "take h (drop position g2) = take h (drop position post1)"
    proof (rule slice_eqI)
      show "position + h \<le> length g2" using r by simp
      show "position + h \<le> length post1" using r by simp
      show "g2 ! (position + i) = post1 ! (position + i)" if "i < h" for i
        using byte1 [of i] that r by simp
    qed
    show "take h (drop (position + h) g2) = take h (drop position post2)"
    proof (rule slice_eqI)
      show "position + h + h \<le> length g2" using r by simp
      show "position + h \<le> length post2" using r by simp
      show "g2 ! (position + h + i) = post2 ! (position + i)" if "i < h" for i
        using byte2 [of i] that r by simp
    qed
  qed
  have outside: "\<forall>k<length g. k < position \<or> position + 2 * h \<le> k \<longrightarrow> g2 ! k = g ! k"
    using len_g1 by (auto simp: g2_def g1_def nth_copied)
  have frame: "\<forall>x. x \<noteq> individual \<longrightarrow> store2 x = store x"
    by (simp add: store2_def store1_def)
  have perm: "(p1, p2) = (if random < 1 / 2 then (b, a) else (a, b))"
    by (simp add: p1_def p2_def)
  have b1: "\<forall>i < h. position + i < length g2 \<longrightarrow>
               g2 ! (position + i) = (if position + i < length post1 then post1 ! (position + i) else 0)"
    using byte1 by blast
  have b2: "\<forall>i < h. position + h + i < length g2 \<longrightarrow>
               g2 ! (position + h + i)
                 = (if position + i < length post2 then post2 ! (position + i) else 0)"
    using byte2 by blast
  show ?thesis
    using run size perm s2_ind s2_p1 s2_p2 b1 b2 halves len_g2 outside frame
    unfolding h_def by blast
qed

theorem Autosome_reproduce_gametes_witness:
  "\<exists>store'. Autosome_reproduce pair_of_one (1 / 4) family 0 [1, 2] 0 = Inr store'
      \<and> store' 0 = Some [2, 1] \<and> store' 1 = Some [1, 0] \<and> store' 2 = Some [2, 0]"
proof -
  have l: "layers pair_of_one = [Autosome]" and h: "size_field pair_of_one = 1"
    by (simp_all add: pair_of_one_def)
  have i: "family 0 = Some [0, 0]" and a: "family 1 = Some [1, 0]" and b: "family 2 = Some [2, 0]"
    by (simp_all add: family_def)
  from Autosome_reproduce_gametes [OF l i a b, of "1 / 4" 0]
  obtain store' g' g1 g2 p1 p2 where
    run: "Autosome_reproduce pair_of_one (1 / 4) family 0 [1, 2] 0 = Inr store'"
    and perm: "(p1, p2) = (if (1 / 4 :: real) < 1 / 2 then (2, 1) else (1, 2))"
    and bufs: "store' 0 = Some g'" "store' p1 = Some g1" "store' p2 = Some g2"
    and halves: "0 + 2 * size_field pair_of_one \<le> length g'
              \<and> 0 + size_field pair_of_one \<le> length g1 \<and> 0 + size_field pair_of_one \<le> length g2
              \<longrightarrow> take (size_field pair_of_one) (drop 0 g')
                    = take (size_field pair_of_one) (drop 0 g1)
                \<and> take (size_field pair_of_one) (drop (0 + size_field pair_of_one) g')
                     = take (size_field pair_of_one) (drop 0 g2)"
    and len: "length g' = length [0::byte, 0]"
    and frame: "\<forall>x. x \<noteq> 0 \<longrightarrow> store' x = family x"
    by blast
  have p: "p1 = 2" "p2 = 1" using perm by simp_all
  have s1: "store' 1 = Some [1, 0]" and s2: "store' 2 = Some [2, 0]"
    using frame a b by simp_all
  have g1: "g1 = [2, 0]" and g2: "g2 = [1, 0]" using bufs p s1 s2 by simp_all
  obtain x y where g': "g' = [x, y]"
    using len by (cases g'; cases "tl g'") auto
  have "x = 2" and "y = 1" using halves by (simp_all add: h g' g1 g2)
  then show ?thesis using run bufs(1) s1 s2 g' by simp
qed

section \<open>Properties: species, individuals and the genome builder\<close>

lemma utils_random_choice_member:
  assumes "0 \<le> r" and "r < 1" and "choices \<noteq> []"
  shows "\<exists>b. utils_random_choice r choices = Some b \<and> b \<in> set choices"
proof -
  let ?n = "length choices"
  have pos: "0 < real ?n" using assms(3) by simp
  have "0 \<le> r * real ?n" using assms(1) by simp
  then have lo: "0 \<le> \<lfloor>r * real ?n\<rfloor>" by simp
  have "r * real ?n < real ?n" using assms(2) pos by simp
  then have hi: "\<lfloor>r * real ?n\<rfloor> < int ?n" by (simp add: floor_less_iff)
  then have "nat \<lfloor>r * real ?n\<rfloor> < ?n" using lo by linarith
  then have mem: "choices ! nat \<lfloor>r * real ?n\<rfloor> \<in> set choices" by (rule nth_mem)
  have "utils_random_choice r choices = Some (choices ! nat \<lfloor>r * real ?n\<rfloor>)"
    using lo hi by (simp add: utils_random_choice_def Let_def)
  with mem show ?thesis by blast
qed

lemma length_layered_markers_le:
  "length (layered_markers ls ms) \<le> layered_size ls (length ms)"
  by (induction ls ms rule: layered_markers.induct) (simp_all add: Let_def)

lemma set_layered_markers: "set (layered_markers ls ms) = set ms"
  by (induction ls ms rule: layered_markers.induct) (simp_all add: Let_def)

lemma length_layered_markers_eq:
  assumes "set ls \<subseteq> {Autosome, Mito, YChromosome}"
  shows "length (layered_markers ls ms) = layered_size ls (length ms)"
  using assms by (induction ls ms rule: layered_markers.induct) (simp_all add: Let_def)

lemma fill_prefix:
  assumes picks: "picks_member func"
    and nonempty: "\<forall>m\<in>set fs. possible_values m \<noteq> []"
    and "n \<le> length fs"
  shows "\<exists>data' s'. fold (fill_locus func fs position) [0..<n] (data, s) = (data', s')
          \<and> length data' = length data
          \<and> (\<forall>k<length data. \<not> (position \<le> k \<and> k < position + n) \<longrightarrow> data' ! k = data ! k)
          \<and> (\<forall>i<n. position + i < length data
                 \<longrightarrow> data' ! (position + i) \<in> set (possible_values (fs ! i)))"
  using assms(3)
proof (induction n)
  case 0
  then show ?case by simp
next
  case (Suc n)
  then obtain data1 s1 where
    run: "fold (fill_locus func fs position) [0..<n] (data, s) = (data1, s1)"
    and len: "length data1 = length data"
    and out: "\<forall>k<length data. \<not> (position \<le> k \<and> k < position + n) \<longrightarrow> data1 ! k = data ! k"
    and ins: "\<forall>i<n. position + i < length data
                 \<longrightarrow> data1 ! (position + i) \<in> set (possible_values (fs ! i))"
    by auto
  have "fs ! n \<in> set fs" using Suc.prems by simp
  then have "possible_values (fs ! n) \<noteq> []" using nonempty by blast
  with picks obtain b where
    b: "fst (func s1 (possible_values (fs ! n))) = Some (uint b)"
    and mem: "b \<in> set (possible_values (fs ! n))"
    unfolding picks_member_def by blast
  obtain s2 where pick: "func s1 (possible_values (fs ! n)) = (Some (uint b), s2)"
    using b by (cases "func s1 (possible_values (fs ! n))") simp
  define data2 where "data2 = typed_set data1 (position + n) (Some b)"
  have step: "fold (fill_locus func fs position) [0..<Suc n] (data, s) = (data2, s2)"
    by (simp add: run fill_locus_def pick data2_def)
  have len2: "length data2 = length data"
    by (simp add: data2_def typed_set_def len)
  have out2: "\<forall>k<length data. \<not> (position \<le> k \<and> k < position + Suc n) \<longrightarrow> data2 ! k = data ! k"
    using out len by (auto simp: data2_def typed_set_def nth_list_update)
  have ins2: "\<forall>i<Suc n. position + i < length data
                 \<longrightarrow> data2 ! (position + i) \<in> set (possible_values (fs ! i))"
  proof (intro allI impI)
    fix i assume i: "i < Suc n" and r: "position + i < length data"
    show "data2 ! (position + i) \<in> set (possible_values (fs ! i))"
    proof (cases "i = n")
      case True
      then show ?thesis using r len mem by (simp add: data2_def typed_set_def to_uint8_def)
    next
      case False
      then have "i < n" using i by simp
      then show ?thesis using ins r len False
        by (auto simp: data2_def typed_set_def nth_list_update)
    qed
  qed
  show ?case
    by (intro exI [of _ data2] exI [of _ s2] conjI step len2 out2 ins2)
qed

lemma fill_chromosome_inv:
  assumes picks: "picks_member func"
    and nonempty: "\<forall>m\<in>set fs. possible_values m \<noteq> []"
  shows "\<exists>data' s'. fill_chromosome func fs position (data, s) = (data', s')
          \<and> length data' = length data
          \<and> (\<forall>k<length data. \<not> (position \<le> k \<and> k < position + length fs)
                 \<longrightarrow> data' ! k = data ! k)
          \<and> (\<forall>i<length fs. position + i < length data
                 \<longrightarrow> data' ! (position + i) \<in> set (possible_values (fs ! i)))"
  unfolding fill_chromosome_def
  by (rule fill_prefix [OF picks nonempty order_refl])

lemma fill_markers_inv:
  assumes picks: "picks_member func"
    and look: "\<forall>p\<in>set suf. map_of md (fst p) = Some (snd p)"
    and wf: "\<forall>p\<in>set suf. length (chr_markers (snd p)) \<le> chr_size (snd p)
               \<and> (\<forall>m\<in>set (chr_markers (snd p)). possible_values m \<noteq> [])"
  shows "\<exists>data' s'. for_each (map fst suf) (fill_marker func md) (position, data, s)
            = Inr (position + sum_list (sizes suf), data', s')
          \<and> length data' = length data
          \<and> (\<forall>k<length data. k < position \<longrightarrow> data' ! k = data ! k)
          \<and> (\<forall>j<length suf. \<forall>i<length (chr_markers (snd (suf ! j))).
                 position + sum_list (sizes (take j suf)) + i < length data \<longrightarrow>
                 data' ! (position + sum_list (sizes (take j suf)) + i)
                   \<in> set (possible_values (chr_markers (snd (suf ! j)) ! i)))"
  using look wf
proof (induction suf arbitrary: position data s)
  case Nil
  then show ?case by simp
next
  case (Cons p suf)
  obtain n c where p: "p = (n, c)" by (cases p)
  have lk: "map_of md n = Some c" using Cons.prems(1) p by simp
  have le: "length (chr_markers c) \<le> chr_size c"
    and ne: "\<forall>m\<in>set (chr_markers c). possible_values m \<noteq> []"
    using Cons.prems(2) p by simp_all
  from fill_chromosome_inv [OF picks ne, where position = position and data = data and s = s]
  obtain data1 s1 where
    fill: "fill_chromosome func (chr_markers c) position (data, s) = (data1, s1)"
    and len1: "length data1 = length data"
    and out1: "\<forall>k<length data. \<not> (position \<le> k \<and> k < position + length (chr_markers c))
                 \<longrightarrow> data1 ! k = data ! k"
    and ins1: "\<forall>i<length (chr_markers c). position + i < length data
                 \<longrightarrow> data1 ! (position + i) \<in> set (possible_values (chr_markers c ! i))"
    by blast
  have step: "fill_marker func md n (position, data, s) = Inr (position + chr_size c, data1, s1)"
    by (simp add: fill_marker_def lk fill)
  have look': "\<forall>p\<in>set suf. map_of md (fst p) = Some (snd p)"
    using Cons.prems(1) by simp
  have wf': "\<forall>p\<in>set suf. length (chr_markers (snd p)) \<le> chr_size (snd p)
               \<and> (\<forall>m\<in>set (chr_markers (snd p)). possible_values m \<noteq> [])"
    using Cons.prems(2) by simp
  from Cons.IH [OF look' wf', of "position + chr_size c" data1 s1]
  obtain data2 s2 where
    rest: "for_each (map fst suf) (fill_marker func md) (position + chr_size c, data1, s1)
            = Inr (position + chr_size c + sum_list (sizes suf), data2, s2)"
    and len2: "length data2 = length data1"
    and out2: "\<forall>k<length data1. k < position + chr_size c \<longrightarrow> data2 ! k = data1 ! k"
    and ins2: "\<forall>j<length suf. \<forall>i<length (chr_markers (snd (suf ! j))).
                 position + chr_size c + sum_list (sizes (take j suf)) + i < length data1 \<longrightarrow>
                 data2 ! (position + chr_size c + sum_list (sizes (take j suf)) + i)
                   \<in> set (possible_values (chr_markers (snd (suf ! j)) ! i))"
    by blast
  have run: "for_each (map fst (p # suf)) (fill_marker func md) (position, data, s)
            = Inr (position + sum_list (sizes (p # suf)), data2, s2)"
    using step rest by (simp add: p add.assoc)
  have len: "length data2 = length data" using len1 len2 by simp
  have out: "\<forall>k<length data. k < position \<longrightarrow> data2 ! k = data ! k"
    using out1 out2 len1 by auto
  have ins: "\<forall>j<length (p # suf). \<forall>i<length (chr_markers (snd ((p # suf) ! j))).
                 position + sum_list (sizes (take j (p # suf))) + i < length data \<longrightarrow>
                 data2 ! (position + sum_list (sizes (take j (p # suf))) + i)
                   \<in> set (possible_values (chr_markers (snd ((p # suf) ! j)) ! i))"
  proof (intro allI impI)
    fix j i
    assume j: "j < length (p # suf)"
      and i: "i < length (chr_markers (snd ((p # suf) ! j)))"
      and r: "position + sum_list (sizes (take j (p # suf))) + i < length data"
    show "data2 ! (position + sum_list (sizes (take j (p # suf))) + i)
                   \<in> set (possible_values (chr_markers (snd ((p # suf) ! j)) ! i))"
    proof (cases j)
      case 0
      have i': "i < length (chr_markers c)" using i 0 p by simp
      have r': "position + i < length data" using r 0 by simp
      have "data2 ! (position + i) = data1 ! (position + i)"
        using out2 i' le r' len1 by simp
      moreover have "data1 ! (position + i) \<in> set (possible_values (chr_markers c ! i))"
        using ins1 i' r' by simp
      ultimately show ?thesis using 0 p by simp
    next
      case (Suc j')
      have j': "j' < length suf" using j Suc by simp
      have i': "i < length (chr_markers (snd (suf ! j')))" using i Suc by simp
      have r': "position + chr_size c + sum_list (sizes (take j' suf)) + i < length data1"
        using r Suc p len1 by (simp add: add.assoc)
      have "data2 ! (position + chr_size c + sum_list (sizes (take j' suf)) + i)
                   \<in> set (possible_values (chr_markers (snd (suf ! j')) ! i))"
        using ins2 j' i' r' by blast
      then show ?thesis using Suc p by (simp add: add.assoc)
    qed
  qed
  show ?case
    by (intro exI [of _ data2] exI [of _ s2] conjI run len out ins)
qed

lemma random_chooser_picks:
  assumes "\<forall>k. 0 \<le> draws k \<and> draws k < 1"
  shows "picks_member (random_chooser draws)"
  unfolding picks_member_def
proof (intro allI impI)
  fix s :: nat and pv :: "byte list"
  assume "pv \<noteq> []"
  with assms utils_random_choice_member [of "draws s" pv]
  obtain b where "utils_random_choice (draws s) pv = Some b" and "b \<in> set pv"
    by blast
  then show "\<exists>b. fst (random_chooser draws s pv) = Some (uint b) \<and> b \<in> set pv"
    by (auto simp: random_chooser_def)
qed

text \<open>
  Claim C9, as amended. With the uniform-random chooser (every \<open>Math.random()\<close> value in
  \<open>[0, 1)\<close>) and non-empty \<open>possible_values\<close> throughout, \<open>create_simple_genome\<close> gives the
  individual a buffer of length \<open>species.genome.size\<close> in which, for every chromosome and
  every index \<open>i\<close> into that chromosome's \<open>markers\<close>, the byte at the chromosome's start
  plus \<open>i\<close> is one of the \<open>possible_values\<close> of \<open>markers[i]\<close>. For the base class under any
  stack of Autosome, Mito and YChromosome layers, \<open>markers\<close> is as long as \<open>size\<close>, so this
  covers every position of the chromosome, both gamete copies included.
\<close>

theorem create_randomized_genome_values:
  assumes "Genome md = Inr g" and "distinct (map fst md)"
    and "\<forall>p\<in>set md. size_field (snd p) = length (markers_field (snd p))"
    and "\<forall>p\<in>set md. \<forall>m\<in>set (markers_field (snd p)). possible_values m \<noteq> []"
    and "\<forall>k. 0 \<le> draws k \<and> draws k < 1"
    and "species_genome (ind_species ind) = g"
  shows "\<exists>data k'. create_randomized_genome draws ind k = Inr (ind\<lparr>ind_genome := Some data\<rparr>, k')
          \<and> length data = genome_size g
          \<and> (\<forall>j<length md. \<forall>i<length (chr_markers (snd (md ! j))).
                \<exists>start. get_marker_start g (fst (md ! j)) = Some start
                  \<and> start + i < genome_size g
                  \<and> data ! (start + i) \<in> set (possible_values (chr_markers (snd (md ! j)) ! i)))
          \<and> (\<forall>j<length md. set (layers (snd (md ! j))) \<subseteq> {Autosome, Mito, YChromosome}
                \<longrightarrow> length (chr_markers (snd (md ! j))) = chr_size (snd (md ! j)))"
proof -
  have ne: "md \<noteq> []" using assms(1) by (auto simp: Genome_def)
  from Genome_built [OF assms(2) ne] assms(1) obtain starts where
    g: "g = \<lparr>metadata = md, marker_order = map fst md, marker_start = starts,
             genome_size = sum_list (sizes md)\<rparr>"
    and at: "\<forall>j<length md. map_of starts (fst (md ! j)) = Some (sum_list (sizes (take j md)))"
    by auto
  have look: "\<forall>p\<in>set md. map_of md (fst p) = Some (snd p)"
    using assms(2) by auto
  have le: "length (chr_markers c) \<le> chr_size c" if "(n, c) \<in> set md" for n c
    using that assms(3) length_layered_markers_le [of "layers c" "markers_field c"]
    by (fastforce simp: chr_markers_def chr_size_def)
  have wf: "\<forall>p\<in>set md. length (chr_markers (snd p)) \<le> chr_size (snd p)
               \<and> (\<forall>m\<in>set (chr_markers (snd p)). possible_values m \<noteq> [])"
    using le assms(4) by (auto simp: chr_markers_def set_layered_markers)
  from fill_markers_inv [OF random_chooser_picks [OF assms(5)] look wf,
      of 0 "replicate (sum_list (sizes md)) 0" k]
  obtain data k' where
    run: "for_each (map fst md) (fill_marker (random_chooser draws) md)
            (0, replicate (sum_list (sizes md)) 0, k) = Inr (0 + sum_list (sizes md), data, k')"
    and len: "length data = length (replicate (sum_list (sizes md)) (0::byte))"
    and ins: "\<forall>j<length md. \<forall>i<length (chr_markers (snd (md ! j))).
                 0 + sum_list (sizes (take j md)) + i < length (replicate (sum_list (sizes md)) (0::byte)) \<longrightarrow>
                 data ! (0 + sum_list (sizes (take j md)) + i)
                   \<in> set (possible_values (chr_markers (snd (md ! j)) ! i))"
    by blast
  have created: "create_randomized_genome draws ind k = Inr (ind\<lparr>ind_genome := Some data\<rparr>, k')"
    using run assms(6) by (simp add: create_randomized_genome_def create_simple_genome_def g)
  have len': "length data = genome_size g" using len by (simp add: g)
  have vals: "\<forall>j<length md. \<forall>i<length (chr_markers (snd (md ! j))).
                \<exists>start. get_marker_start g (fst (md ! j)) = Some start
                  \<and> start + i < genome_size g
                  \<and> data ! (start + i) \<in> set (possible_values (chr_markers (snd (md ! j)) ! i))"
  proof (intro allI impI)
    fix j i assume j: "j < length md" and i: "i < length (chr_markers (snd (md ! j)))"
    have "(fst (md ! j), snd (md ! j)) \<in> set md" using j by simp
    then have "length (chr_markers (snd (md ! j))) \<le> chr_size (snd (md ! j))" by (rule le)
    moreover have "sum_list (sizes (take j md)) + chr_size (snd (md ! j))
                     \<le> sum_list (sizes (take (length md) md))"
      using j by (intro sizes_take_grow) simp_all
    ultimately have r: "sum_list (sizes (take j md)) + i < sum_list (sizes md)"
      using i by simp
    then have "data ! (sum_list (sizes (take j md)) + i)
                   \<in> set (possible_values (chr_markers (snd (md ! j)) ! i))"
      using ins j i by simp
    moreover have "get_marker_start g (fst (md ! j)) = Some (sum_list (sizes (take j md)))"
      using at j by (simp add: get_marker_start_def g)
    ultimately show "\<exists>start. get_marker_start g (fst (md ! j)) = Some start
                  \<and> start + i < genome_size g
                  \<and> data ! (start + i) \<in> set (possible_values (chr_markers (snd (md ! j)) ! i))"
      using r by (simp add: g)
  qed
  have full: "\<forall>j<length md. set (layers (snd (md ! j))) \<subseteq> {Autosome, Mito, YChromosome}
                \<longrightarrow> length (chr_markers (snd (md ! j))) = chr_size (snd (md ! j))"
    using assms(3) by (simp add: chr_markers_def chr_size_def length_layered_markers_eq)
  show ?thesis
    by (intro exI [of _ data] exI [of _ k'] conjI created len' vals full)
qed

lemma Genome_md0: "Genome md0 = Inr genome0"
  by (simp add: Genome_def md0_def genome0_def chr_size_def)

theorem create_randomized_genome_values_witness:
  "\<exists>data k'. create_randomized_genome (\<lambda>k. 1 / 2) (founder genome0) 0
        = Inr ((founder genome0)\<lparr>ind_genome := Some data\<rparr>, k')
      \<and> length data = 4 \<and> data ! 0 \<in> {0, 1} \<and> data ! 3 \<in> {0, 1}"
proof -
  have d: "distinct (map fst md0)" by (simp add: md0_def)
  have ctor: "\<forall>p\<in>set md0. size_field (snd p) = length (markers_field (snd p))"
    by (simp add: md0_def)
  have pv: "\<forall>p\<in>set md0. \<forall>m\<in>set (markers_field (snd p)). possible_values m \<noteq> []"
    by (simp add: md0_def default_SNP_def)
  have draws: "\<forall>k::nat. (0::real) \<le> 1 / 2 \<and> (1 / 2 :: real) < 1" by simp
  have sp: "species_genome (ind_species (founder genome0)) = genome0"
    by (simp add: founder_def)
  from create_randomized_genome_values [OF Genome_md0 d ctor pv draws sp, of 0]
  obtain data k' where
    run: "create_randomized_genome (\<lambda>k. 1 / 2) (founder genome0) 0
        = Inr ((founder genome0)\<lparr>ind_genome := Some data\<rparr>, k')"
    and len: "length data = genome_size genome0"
    and vals: "\<forall>j<length md0. \<forall>i<length (chr_markers (snd (md0 ! j))).
                \<exists>start. get_marker_start genome0 (fst (md0 ! j)) = Some start
                  \<and> start + i < genome_size genome0
                  \<and> data ! (start + i) \<in> set (possible_values (chr_markers (snd (md0 ! j)) ! i))"
    by blast
  have "data ! 0 \<in> {0, 1}"
    using vals [rule_format, of 0 0]
    by (simp add: md0_def chr_markers_def default_SNP_def get_marker_start_def genome0_def)
  moreover have "data ! 3 \<in> {0, 1}"
    using vals [rule_format, of 1 1]
    by (simp add: md0_def chr_markers_def default_SNP_def get_marker_start_def genome0_def)
  ultimately show ?thesis using run len by (auto simp: genome0_def)
qed

text \<open>
  Claim C9 as stated fails under a layer that doubles \<open>size\<close> without doubling \<open>markers\<close>:
  for one marker with \<open>possible_values = [1, 2]\<close> under the \<open>XChromosome\<close> layer the buffer
  has two positions, only the first is written, and the second keeps the 0 the buffer was
  created with, which is not a possible value.
\<close>

theorem create_randomized_genome_stub_layer_counterexample:
  "Genome [(''X'', x_chromosome)] = Inr x_genome
   \<and> chr_size x_chromosome = 2
   \<and> create_randomized_genome zero_draws (founder x_genome) 0
        = Inr ((founder x_genome)\<lparr>ind_genome := Some [1, 0]\<rparr>, 1)
   \<and> (0::byte) \<notin> set (possible_values (SNP [1, 2]))"
  by (simp add: Genome_def x_chromosome_def x_genome_def chr_size_def chr_markers_def
      create_randomized_genome_def create_simple_genome_def founder_def fill_marker_def
      fill_chromosome_def fill_locus_def random_chooser_def utils_random_choice_def
      typed_set_def to_uint8_def numeral_2_eq_2 zero_draws_def)

section \<open>Properties: operators and the simulation driver\<close>

lemma for_of_stop_only:
  assumes "nth_or_undefined arrays r = Some [CycleStopOperator target]"
  shows "for_of_operators compute ext r 0 (state, arrays) =
           Some (Inr (state\<lparr>global_parameters :=
                              (if cycle state = target
                               then (global_parameters state)(''stop'' \<mapsto> JBool True)
                               else global_parameters state)\<rparr>, arrays))"
  using assms
  by (simp add: for_of_operators.simps [where i = 0] for_of_operators.simps [where i = "Suc 0"])

lemma sim_cycle_stop_only:
  assumes "nth_or_undefined arrays (operators state) = Some [CycleStopOperator target]"
  shows "sim_cycle compute ext (state, arrays) =
           Some (Inr (state\<lparr>global_parameters :=
                              (if cycle state = target
                               then (global_parameters state)(''stop'' \<mapsto> JBool True)
                               else global_parameters state),
                            cycle := cycle state + 1\<rparr>, arrays))"
  by (simp add: sim_cycle_def for_of_stop_only [OF assms])

lemma cycles_stop_only:
  assumes "nth_or_undefined arrays (operators state) = Some [CycleStopOperator target]"
  shows "cycles compute ext k (state, arrays) =
           Some (Inr (state\<lparr>global_parameters :=
                              (if cycle state \<le> target \<and> target < cycle state + int k
                               then (global_parameters state)(''stop'' \<mapsto> JBool True)
                               else global_parameters state),
                            cycle := cycle state + int k\<rparr>, arrays))"
  using assms
proof (induction k arbitrary: state)
  case 0
  then show ?case by auto
next
  case (Suc k)
  let ?s1 = "state\<lparr>global_parameters :=
                        (if cycle state = target
                         then (global_parameters state)(''stop'' \<mapsto> JBool True)
                         else global_parameters state),
                      cycle := cycle state + 1\<rparr>"
  have ops: "nth_or_undefined arrays (operators ?s1) = Some [CycleStopOperator target]"
    using Suc.prems by simp
  show ?case
    using Suc.IH [OF ops] sim_cycle_stop_only [OF Suc.prems, of compute ext]
    by (cases "cycle state = target") auto
qed

text \<open>
  Claim C6. \<open>CycleStopOperator(target).change(state)\<close> sets \<open>stop\<close> to \<open>true\<close> when
  \<open>state.cycle === target\<close> and leaves the state untouched on every other cycle. Along a
  run of \<open>k\<close> cycle steps driven by that operator alone, \<open>stop\<close> has been set exactly when
  the run has passed through the target cycle, never before.
\<close>

theorem CycleStopOperator_fires_at_target:
  "change compute ext (CycleStopOperator target) (state, arrays) =
     Inr (if cycle state = target
          then state\<lparr>global_parameters := (global_parameters state)(''stop'' \<mapsto> JBool True)\<rparr>
          else state, arrays)
   \<and> (nth_or_undefined arrays (operators state) = Some [CycleStopOperator target] \<longrightarrow>
        (\<exists>state'. cycles compute ext k (state, arrays) = Some (Inr (state', arrays))
           \<and> cycle state' = cycle state + int k
           \<and> individuals state' = individuals state
           \<and> operators state' = operators state
           \<and> global_parameters state' =
               (if cycle state \<le> target \<and> target < cycle state + int k
                then (global_parameters state)(''stop'' \<mapsto> JBool True)
                else global_parameters state)))"
  using cycles_stop_only [of arrays state target compute ext k] by simp

theorem CycleStopOperator_fires_at_target_witness:
  "(\<exists>state'. cycles no_compute no_external 2 (initial_state [] 0 0, [[CycleStopOperator 2]])
         = Some (Inr (state', [[CycleStopOperator 2]]))
       \<and> cycle state' = 2 \<and> global_parameters state' ''stop'' = Some (JBool False))
   \<and> (\<exists>state'. cycles no_compute no_external 3 (initial_state [] 0 0, [[CycleStopOperator 2]])
         = Some (Inr (state', [[CycleStopOperator 2]]))
       \<and> cycle state' = 3 \<and> global_parameters state' ''stop'' = Some (JBool True))"
proof -
  have ops: "nth_or_undefined [[CycleStopOperator 2]]
               (operators (initial_state [] 0 0 :: (nat, unit) state))
               = Some [CycleStopOperator 2 :: unit operator]"
    by (simp add: initial_state_def nth_or_undefined_def)
  from CycleStopOperator_fires_at_target
         [of no_compute no_external 2 "initial_state [] 0 0" "[[CycleStopOperator 2]]" 2] ops
       CycleStopOperator_fires_at_target
         [of no_compute no_external 2 "initial_state [] 0 0" "[[CycleStopOperator 2]]" 3]
  show ?thesis by (auto simp: initial_state_def)
qed

lemma unspecified_loop_reaches_target:
  assumes "c \<le> n" and "nth_or_undefined arrays r = Some [CycleStopOperator n]"
  shows "unspecified_loop compute ext
           (\<lparr>global_parameters = [''stop'' \<mapsto> JBool False], individuals = inds,
             operators = r, cycle = c\<rparr>, arrays)
         = Some (Inr (\<lparr>global_parameters = [''stop'' \<mapsto> JBool True], individuals = inds,
                       operators = r, cycle = n + 1\<rparr>, arrays))"
  using assms(1)
proof (induction "nat (n - c)" arbitrary: c)
  case 0
  then have c: "c = n" by simp
  show ?case
    apply (subst unspecified_loop.simps)
    apply (simp add: sim_cycle_stop_only assms(2) c)
    apply (subst unspecified_loop.simps)
    apply simp
    done
next
  case (Suc k)
  then have lt: "c < n" and k: "k = nat (n - (c + 1))" and le: "c + 1 \<le> n" by auto
  show ?case
    apply (subst unspecified_loop.simps)
    using lt Suc.hyps(1) [OF k le]
    apply (simp add: sim_cycle_stop_only assms(2))
    done
qed

text \<open>
  Claim C3. \<open>do_n_cycles(n, individuals, [])\<close>, started at cycle 0 without a callback,
  returns for every \<open>n \<ge> 0\<close>; the returned state has \<open>cycle = n + 1\<close>, the individuals it
  was given, and \<open>stop\<close> set. Its operator array is the new one holding the stop operator;
  the empty array that was passed is left as it was.
\<close>

theorem do_n_cycles_no_operators:
  assumes "0 \<le> n" and "nth_or_undefined arrays ops = Some []"
  shows "sim_do_n_cycles compute ext n inds ops 0 False arrays =
           Some (Inr (Returned
             (\<lparr>global_parameters = [''stop'' \<mapsto> JBool True], individuals = inds,
               operators = length arrays, cycle = n + 1\<rparr>,
              arrays @ [[CycleStopOperator n]])))"
proof -
  have "nth_or_undefined (arrays @ [[CycleStopOperator n]]) (length arrays)
          = Some [CycleStopOperator n]"
    by (simp add: nth_or_undefined_def)
  from unspecified_loop_reaches_target [OF assms(1) this, of compute ext inds]
  show ?thesis
    using assms(2)
    by (simp add: sim_do_n_cycles_def sim_do_unspecified_cycles_def initial_state_def)
qed

theorem do_n_cycles_no_operators_witness:
  "\<exists>state arrays'. sim_do_n_cycles no_compute no_external 2 [0, 1, 2, 3, 4, 5, 6, 7, 8, 9]
         0 0 False [[]]
       = Some (Inr (Returned (state, arrays')))
     \<and> cycle state = 3 \<and> length (individuals state) = 10"
proof -
  have n: "(0::int) \<le> 2" by simp
  have e: "nth_or_undefined [[]] 0 = Some ([] :: unit operator list)"
    by (simp add: nth_or_undefined_def)
  from do_n_cycles_no_operators
         [OF n e, of no_compute no_external "[0, 1, 2, 3, 4, 5, 6, 7, 8, 9]"]
  show ?thesis by simp
qed

lemma sync_count:
  "sim_do_unspecified_cycles running_count no_external [] 0 0 [counting_operators] =
     Some (Inr (\<lparr>global_parameters = [''stop'' \<mapsto> JBool True, ''count'' \<mapsto> JNum 2],
                 individuals = [], operators = 0, cycle = 2\<rparr>, [counting_operators]))"
  unfolding sim_do_unspecified_cycles_def initial_state_def
  apply (subst unspecified_loop.simps)
  apply (simp add: sim_cycle_def counting_operators_def running_count_def nth_or_undefined_def
      for_of_operators.simps [where i = 0] for_of_operators.simps [where i = "Suc 0"]
      for_of_operators.simps [where i = "Suc (Suc 0)"])
  apply (subst unspecified_loop.simps)
  apply (simp add: sim_cycle_def counting_operators_def running_count_def nth_or_undefined_def
      for_of_operators.simps [where i = 0] for_of_operators.simps [where i = "Suc 0"]
      for_of_operators.simps [where i = "Suc (Suc 0)"])
  apply (subst unspecified_loop.simps)
  apply (simp add: sim_cycle_def counting_operators_def running_count_def)
  apply (rule ext)
  apply simp
  done

lemma async_count:
  "resume_until_stopped running_count no_external (first_call, [counting_operators]) =
     Some (Inr (\<lparr>global_parameters = [''stop'' \<mapsto> JBool True, ''count'' \<mapsto> JNum 1],
                 individuals = [], operators = 0, cycle = 2\<rparr>, [counting_operators]))"
  apply (subst resume_until_stopped.simps)
  apply (simp add: sim_do_async_cycles_def initial_state_def sim_cycle_def first_call_def
      counting_operators_def running_count_def get_parameter_def nth_or_undefined_def
      for_of_operators.simps [where i = 0] for_of_operators.simps [where i = "Suc 0"]
      for_of_operators.simps [where i = "Suc (Suc 0)"])
  apply (subst resume_until_stopped.simps)
  apply (simp add: sim_do_async_cycles_def initial_state_def sim_cycle_def
      counting_operators_def running_count_def get_parameter_def nth_or_undefined_def
      for_of_operators.simps [where i = 0] for_of_operators.simps [where i = "Suc 0"]
      for_of_operators.simps [where i = "Suc (Suc 0)"])
  apply (rule ext)
  apply simp
  done

text \<open>
  Claim C5 (the code diverges). \<open>do_async_cycles\<close> accepts a \<open>global_parameters\<close> argument
  and binds the current \<open>state.global_parameters\<close> into the resume continuation, but its body
  never reads the argument: every invocation starts again from \<open>{stop: false}\<close>. With a
  statistics operator that keeps a running count in \<open>global_parameters\<close>, followed by
  \<open>CycleStopOperator(1)\<close>, the synchronous loop returns \<open>count = 2\<close> while the state
  delivered by the async driver when stop is set has \<open>count = 1\<close>.
\<close>

theorem async_cycles_lose_global_parameters:
  "sim_do_unspecified_cycles running_count no_external [] 0 0 [counting_operators] =
     Some (Inr (\<lparr>global_parameters = [''stop'' \<mapsto> JBool True, ''count'' \<mapsto> JNum 2],
                 individuals = [], operators = 0, cycle = 2\<rparr>, [counting_operators]))
   \<and> resume_until_stopped running_count no_external (first_call, [counting_operators]) =
     Some (Inr (\<lparr>global_parameters = [''stop'' \<mapsto> JBool True, ''count'' \<mapsto> JNum 1],
                 individuals = [], operators = 0, cycle = 2\<rparr>, [counting_operators]))"
  using sync_count async_count by simp

text \<open>
  The loop of a cycle walks the live array: an operator pushed onto it while the cycle runs
  is run in that same cycle. Here the only operator pushes \<open>CycleStopOperator(0)\<close> during
  cycle 0, and \<open>stop\<close> is set when the cycle ends.
\<close>

lemma pushed_operator_runs_in_the_same_cycle:
  "sim_cycle no_compute pushing (initial_state [] 0 0, [[ExternalOperator ()]]) =
     Some (Inr (\<lparr>global_parameters = [''stop'' \<mapsto> JBool True], individuals = [],
                 operators = 0, cycle = 1\<rparr>,
                [[ExternalOperator (), CycleStopOperator 0]]))"
  by (simp add: sim_cycle_def initial_state_def pushing_def nth_or_undefined_def
      for_of_operators.simps [where i = 0] for_of_operators.simps [where i = "Suc 0"]
      for_of_operators.simps [where i = "Suc (Suc 0)"])

section \<open>Properties: allele-count statistics\<close>







text \<open>The division in \<open>num_features = features.length / 2\<close> is exact.\<close>

lemma autosomal_markers_even:
  "layered_is_autosomal ls \<Longrightarrow> even (length (layered_markers ls ms))"
  by (induction ls ms rule: layered_markers.induct) (simp_all add: Let_def)




end
